(* ===== verification/Prelude.thy ===== *)
theory Prelude
  imports Main "HOL-Library.Word" "HOL-Library.Stream"
begin

text \<open>
  Shared vocabulary of the development: the Python built-ins that \<open>src/main.py\<close>
  relies on, written with the semantics CPython gives them, and the lemmas about them
  that every component uses. The exceptions the code can raise are the constructors of
  \<open>py_error\<close>; a fallible operation returns \<open>py_error + 'a\<close>, \<open>Inl\<close> being the
  raised exception. Element types are kept polymorphic over \<open>monoid_add\<close>: the code
  only ever adds elements and starts from \<open>0\<close>, and the same definitions serve for
  Python's unbounded \<open>int\<close> and for fixed-width \<open>64 word\<close>.
\<close>

named_theorems py_simps \<open>evaluation rules of the modelled Python built-ins\<close>

datatype py_error = ZeroDivisionError | IndexError | AssertionError | ValueError

type_synonym 'a py_result = "py_error + 'a"

subsection \<open>Built-ins\<close>

text \<open>\<open>sum(xs)\<close>: a left fold from the start value \<open>0\<close>.\<close>

definition py_sum :: "'a::monoid_add list \<Rightarrow> 'a" where
  "py_sum xs = foldl (+) 0 xs"

text \<open>
  \<open>range(k)\<close> for an integer \<open>k\<close>: the integers \<open>0, \<dots>, k - 1\<close>, empty when
  \<open>k \<le> 0\<close>.
\<close>

definition py_range :: "int \<Rightarrow> int list" where
  "py_range k = [0..k - 1]"

text \<open>\<open>[x] * k\<close>: \<open>k\<close> copies of \<open>x\<close>, the empty list when \<open>k \<le> 0\<close>.\<close>

definition py_list_mul :: "'a \<Rightarrow> int \<Rightarrow> 'a list" where
  "py_list_mul x k = replicate (nat k) x"

text \<open>\<open>a // b\<close>: floor division (Isabelle's \<open>div\<close> on \<open>int\<close>), raising on \<open>b = 0\<close>.\<close>

definition py_floordiv :: "int \<Rightarrow> int \<Rightarrow> int py_result" where
  "py_floordiv a b = (if b = 0 then Inl ZeroDivisionError else Inr (a div b))"

text \<open>
  Slice bounds: a negative bound counts from the end and both are clamped to
  \<open>[0, len]\<close> (CPython's \<open>PySlice_AdjustIndices\<close> for step 1).
\<close>

definition py_slice_bound :: "int \<Rightarrow> int \<Rightarrow> int" where
  "py_slice_bound n i = (if i < 0 then max 0 (i + n) else min i n)"

text \<open>\<open>xs[i:j]\<close>: never raises; empty when the adjusted \<open>j\<close> is not above \<open>i\<close>.\<close>

definition py_slice :: "'a list \<Rightarrow> int \<Rightarrow> int \<Rightarrow> 'a list" where
  "py_slice xs i j =
     (let n = int (length xs); s = py_slice_bound n i; e = py_slice_bound n j
      in take (nat (e - s)) (drop (nat s) xs))"

text \<open>\<open>xs[i] = v\<close>: a negative index counts from the end; out of range raises.\<close>

definition py_setitem :: "'a list \<Rightarrow> int \<Rightarrow> 'a \<Rightarrow> 'a list py_result" where
  "py_setitem xs i v =
     (let n = int (length xs); j = (if i < 0 then i + n else i)
      in if 0 \<le> j \<and> j < n then Inr (xs[nat j := v]) else Inl IndexError)"

declare py_sum_def [py_simps] py_range_def [py_simps] py_list_mul_def [py_simps]
  py_floordiv_def [py_simps] py_slice_def [py_simps] py_slice_bound_def [py_simps]
  py_setitem_def [py_simps]

subsection \<open>Lemmas on the built-ins\<close>

lemma foldl_plus_acc: "foldl (+) (a::'a::monoid_add) xs = a + sum_list xs"
  by (induction xs arbitrary: a) (simp_all add: add.assoc)

lemma py_sum_sum_list [simp]: "py_sum xs = sum_list xs"
  by (simp add: py_sum_def foldl_plus_acc)

lemma py_range_eq: "py_range k = map int [0..<nat k]"
  by (rule nth_equalityI) (simp_all add: py_range_def)

lemma length_py_range [simp]: "length (py_range k) = nat k"
  by (simp add: py_range_def)

lemma length_py_list_mul [simp]: "length (py_list_mul x k) = nat k"
  by (simp add: py_list_mul_def)

lemma py_slice_bound_in_range:
  "0 \<le> i \<Longrightarrow> i \<le> n \<Longrightarrow> py_slice_bound n i = i"
  by (simp add: py_slice_bound_def)

text \<open>On bounds inside the list, a slice is \<open>take\<close> after \<open>drop\<close>.\<close>

lemma py_slice_take_drop:
  assumes "0 \<le> i" "i \<le> j" "j \<le> int (length xs)"
  shows "py_slice xs i j = take (nat (j - i)) (drop (nat i) xs)"
  using assms by (simp add: py_slice_def py_slice_bound_def)

lemma length_py_slice_le: "length (py_slice xs i j) \<le> length xs"
  by (simp add: py_slice_def Let_def)

lemma py_slice_Nil [simp]: "py_slice [] i j = []"
  by (simp add: py_slice_def)

lemma py_slice_empty [simp]: "py_slice xs i i = []"
  by (simp add: py_slice_def)

lemma py_slice_full: "py_slice xs 0 (int (length xs)) = xs"
  by (simp add: py_slice_def py_slice_bound_def)

text \<open>Two adjacent slices make one: the step behind every chunking argument.\<close>

lemma py_slice_append:
  assumes "0 \<le> i" "i \<le> j" "j \<le> k" "k \<le> int (length xs)"
  shows "py_slice xs i j @ py_slice xs j k = py_slice xs i k"
proof -
  have "take (nat (j - i)) (drop (nat i) xs) @ take (nat (k - j)) (drop (nat j) xs)
        = take (nat (k - i)) (drop (nat i) xs)"
  proof -
    have kj: "nat (k - i) = nat (j - i) + nat (k - j)" and ji: "nat j = nat (j - i) + nat i"
      using assms by simp_all
    show ?thesis
      by (simp add: kj ji take_add add.commute)
  qed
  with assms show ?thesis by (simp add: py_slice_take_drop)
qed

lemma py_setitem_in_range:
  "0 \<le> i \<Longrightarrow> i < int (length xs) \<Longrightarrow> py_setitem xs i v = Inr (xs[nat i := v])"
  by (simp add: py_setitem_def)

lemma sum_list_concat_map: "sum_list (concat xss) = sum_list (map sum_list (xss::'a::monoid_add list list))"
  by (induction xss) simp_all

text \<open>Writing \<open>f j\<close> into slot \<open>j\<close> for \<open>j = 0, \<dots>, m - 1\<close>, one after the other.\<close>

lemma foldl_update_upt:
  "m \<le> length xs \<Longrightarrow> foldl (\<lambda>t j. t[j := f j]) xs [0..<m] = map f [0..<m] @ drop m xs"
proof (induction m)
  case 0
  then show ?case by simp
next
  case (Suc m)
  then have "foldl (\<lambda>t j. t[j := f j]) xs [0..<m] = map f [0..<m] @ drop m xs" by simp
  moreover have "drop m xs = xs ! m # drop (Suc m) xs"
    using Suc.prems by (simp add: Cons_nth_drop_Suc)
  ultimately show ?case by (simp add: list_update_append)
qed

end
