(* ===== verification/Partition.thy ===== *)
theory Partition
  imports Prelude
begin

text \<open>
  The partitioner: the chunk boundaries that \<open>VectorSum._sum_vector_with_threads\<close>
  (\<open>src/main.py\<close>, lines 25--28) computes before it starts each thread. The code
  does not build a list of chunks; \<open>chunks\<close> collects the \<open>(start, end)\<close> argument
  pairs the loop passes to the threads, in loop order. \<open>contiguous_cover\<close> is the
  partitioner's contract from the specification (section 4.1): consecutive half-open
  ranges from \<open>lo\<close> to \<open>hi\<close>, each one ending where the next starts.
\<close>

definition chunk_start :: "int \<Rightarrow> int \<Rightarrow> int" where
  "chunk_start chunk_size i = i * chunk_size"

definition chunk_end :: "int \<Rightarrow> int \<Rightarrow> int \<Rightarrow> int \<Rightarrow> int" where
  "chunk_end vsize num_threads chunk_size i =
     (if i \<noteq> num_threads - 1 then (i + 1) * chunk_size else vsize)"

definition chunks :: "int \<Rightarrow> int \<Rightarrow> (int \<times> int) list py_result" where
  "chunks vsize num_threads =
     (case py_floordiv vsize num_threads of
        Inl e \<Rightarrow> Inl e
      | Inr chunk_size \<Rightarrow>
          Inr (map (\<lambda>i. (chunk_start chunk_size i, chunk_end vsize num_threads chunk_size i))
                 (py_range num_threads)))"

fun contiguous_cover :: "(int \<times> int) list \<Rightarrow> int \<Rightarrow> int \<Rightarrow> bool" where
  "contiguous_cover [] lo hi = (lo = hi)"
| "contiguous_cover ((s, e) # cs) lo hi = (s = lo \<and> s \<le> e \<and> contiguous_cover cs e hi)"

text \<open>The boundaries of thread \<open>i\<close>, as the loop computes them from \<open>chunk_size\<close>.\<close>

abbreviation chunk_bounds :: "int \<Rightarrow> int \<Rightarrow> int \<Rightarrow> int \<times> int" where
  "chunk_bounds n k i \<equiv> (chunk_start (n div k) i, chunk_end n k (n div k) i)"

subsection \<open>Arithmetic of the chunk size\<close>

lemma chunk_size_nonneg: "0 \<le> n \<Longrightarrow> 1 \<le> k \<Longrightarrow> 0 \<le> n div (k::int)"
  by (simp add: pos_imp_zdiv_nonneg_iff)

lemma chunk_size_mult_le: "0 \<le> n \<Longrightarrow> 1 \<le> k \<Longrightarrow> k * (n div k) \<le> (n::int)"
  using mult_div_mod_eq [of k n] pos_mod_sign [of k n] by linarith

lemma chunk_start_le_size:
  assumes "0 \<le> n" "1 \<le> k" "0 \<le> i" "i < k"
  shows "chunk_start (n div k) i \<le> n"
proof -
  have "i * (n div k) \<le> k * (n div k)"
    using assms chunk_size_nonneg [of n k] by (simp add: mult_right_mono)
  then show ?thesis
    using chunk_size_mult_le [OF assms(1,2)] by (simp add: chunk_start_def)
qed

lemma chunk_start_mono:
  "0 \<le> n \<Longrightarrow> 1 \<le> k \<Longrightarrow> i \<le> j \<Longrightarrow> chunk_start (n div k) i \<le> chunk_start (n div k) j"
  using chunk_size_nonneg [of n k] by (simp add: chunk_start_def mult_right_mono)

subsection \<open>The chunks cover the sequence\<close>

lemma chunks_Inr: "k \<noteq> 0 \<Longrightarrow> chunks n k = Inr (map (chunk_bounds n k) (py_range k))"
  by (simp add: chunks_def py_floordiv_def)

lemma chunk_bounds_cover_from:
  assumes "0 \<le> n" "1 \<le> k" "m < nat k"
  shows "contiguous_cover (map (chunk_bounds n k \<circ> int) [m..<nat k]) (chunk_start (n div k) (int m)) n"
  using assms(3)
proof (induction "nat k - m" arbitrary: m)
  case 0
  then show ?case by simp
next
  case (Suc d)
  show ?case
  proof (cases "Suc m = nat k")
    case True
    then have last: "int m = k - 1" by linarith
    have "chunk_start (n div k) (int m) \<le> n"
      using assms(1,2) last by (intro chunk_start_le_size) simp_all
    with True last show ?thesis
      by (simp add: upt_conv_Cons chunk_end_def)
  next
    case False
    with Suc.prems have more: "Suc m < nat k" by simp
    have "contiguous_cover (map (chunk_bounds n k \<circ> int) [Suc m..<nat k])
            (chunk_start (n div k) (int (Suc m))) n"
      using Suc.hyps(2) more by (intro Suc.hyps(1)) simp_all
    moreover have "int m \<noteq> k - 1" using more by linarith
    moreover have "chunk_start (n div k) (int m) \<le> chunk_start (n div k) (int (Suc m))"
      using assms(1,2) by (intro chunk_start_mono) simp_all
    ultimately show ?thesis
      using Suc.prems by (simp add: upt_conv_Cons chunk_end_def chunk_start_def algebra_simps)
  qed
qed

lemma contiguous_cover_le: "contiguous_cover cs lo hi \<Longrightarrow> lo \<le> hi"
  by (induction cs arbitrary: lo) (auto, fastforce)

text \<open>Slicing along a contiguous cover and concatenating gives back the covered slice.\<close>

lemma contiguous_cover_concat:
  "contiguous_cover cs lo hi \<Longrightarrow> 0 \<le> lo \<Longrightarrow> hi \<le> int (length xs) \<Longrightarrow>
   concat (map (\<lambda>(s, e). py_slice xs s e) cs) = py_slice xs lo hi"
proof (induction cs arbitrary: lo)
  case Nil
  then show ?case by simp
next
  case (Cons c cs)
  obtain s e where c: "c = (s, e)" by fastforce
  with Cons.prems have s: "s = lo" "lo \<le> e" and rest: "contiguous_cover cs e hi" by simp_all
  have "e \<le> hi" using rest by (rule contiguous_cover_le)
  have "concat (map (\<lambda>(s, e). py_slice xs s e) cs) = py_slice xs e hi"
    using rest Cons.prems(2,3) s(2) by (intro Cons.IH) simp_all
  with c s \<open>e \<le> hi\<close> Cons.prems(2,3) show ?case by (simp add: py_slice_append)
qed

lemma length_chunks_Inr: "k \<noteq> 0 \<Longrightarrow> chunks n k = Inr cs \<Longrightarrow> length cs = nat k"
  by (auto simp: chunks_Inr)

subsection \<open>Properties of the partitioner\<close>

lemma chunk_bounds_cover:
  assumes "0 \<le> n" "1 \<le> k"
  shows "contiguous_cover (map (chunk_bounds n k) (py_range k)) 0 n"
proof -
  have "contiguous_cover (map (chunk_bounds n k \<circ> int) [0..<nat k]) (chunk_start (n div k) (int 0)) n"
    using assms by (intro chunk_bounds_cover_from) simp_all
  then show ?thesis
    by (simp add: py_range_eq chunk_start_def)
qed

text \<open>Slicing a vector of \<open>size\<close> elements at the chunk bounds and concatenating gives it back.\<close>

lemma chunk_slices_concat:
  assumes "0 < k" "length xs = nat n"
  shows "concat (map (\<lambda>(s, e). py_slice xs s e) (map (chunk_bounds n k) (py_range k))) = xs"
proof (cases "0 \<le> n")
  case True
  have "concat (map (\<lambda>(s, e). py_slice xs s e) (map (chunk_bounds n k) (py_range k))) = py_slice xs 0 n"
    using True assms by (intro contiguous_cover_concat chunk_bounds_cover) simp_all
  also have "\<dots> = xs"
    using True assms(2) py_slice_full [of xs] by simp
  finally show ?thesis .
next
  case False
  with assms(2) show ?thesis by (simp add: comp_def)
qed

text \<open>
  C5. The partitioner refines its contract: for a non-negative length \<open>n\<close> and at least
  one thread, the loop hands out exactly \<open>k\<close> chunks, the first starting at \<open>0\<close>, the
  last ending at \<open>n\<close>, each ending where the next starts (no gap, no overlap).
\<close>

theorem chunks_contiguous_cover:
  assumes "0 \<le> n" "1 \<le> k"
  shows "\<exists>cs. chunks n k = Inr cs \<and> length cs = nat k \<and> contiguous_cover cs 0 n"
  using assms chunk_bounds_cover [OF assms] by (simp add: chunks_Inr)

theorem chunks_contiguous_cover_witness:
  "(0::int) \<le> 10 \<and> (1::int) \<le> 4 \<and>
   (\<exists>cs. chunks 10 4 = Inr cs \<and> length cs = nat 4 \<and> contiguous_cover cs 0 10)"
  using chunks_contiguous_cover [of 10 4] by simp

text \<open>
  C19. The remainder goes to the last chunk: every chunk but the last has
  \<open>size // num_threads\<close> elements and the last one has \<open>size % num_threads\<close> more.
  This tie-break holds for every size, negative ones included.
\<close>

theorem chunks_lengths:
  assumes "1 \<le> k"
  shows "\<exists>cs. chunks n k = Inr cs \<and>
    map (\<lambda>(s, e). e - s) cs = replicate (nat k - 1) (n div k) @ [n div k + n mod k]"
proof -
  let ?len = "\<lambda>i. if i = k - 1 then n div k + n mod k else n div k"
  have each: "(\<lambda>(s, e). e - s) (chunk_bounds n k i) = ?len i" for i
  proof (cases "i = k - 1")
    case True
    then have "(i + 1) * (n div k) + n mod k = n"
      using mult_div_mod_eq [of k n] by simp
    moreover have "(i + 1) * (n div k) = i * (n div k) + n div k"
      by (simp add: distrib_right)
    ultimately have "n = i * (n div k) + n div k + n mod k"
      by linarith
    with True show ?thesis by (simp add: chunk_start_def chunk_end_def)
  next
    case False
    then show ?thesis by (simp add: chunk_start_def chunk_end_def algebra_simps)
  qed
  have range: "py_range k = [0..k - 2] @ [k - 1]"
    using assms upto_rec2 [of 0 "k - 1"] by (simp add: py_range_def)
  have "map ?len [0..k - 2] = map (\<lambda>_. n div k) [0..k - 2]"
    by (rule map_cong) auto
  also have "\<dots> = replicate (nat k - 1) (n div k)"
    using assms by (simp add: map_replicate_const nat_diff_distrib')
  finally have "map ?len [0..k - 2] = replicate (nat k - 1) (n div k)" .
  moreover have "(\<lambda>(s, e). e - s) \<circ> chunk_bounds n k = ?len"
    by (rule ext) (simp only: comp_apply each)
  ultimately have "map ((\<lambda>(s, e). e - s) \<circ> chunk_bounds n k) (py_range k)
             = replicate (nat k - 1) (n div k) @ [n div k + n mod k]"
    by (simp add: range)
  with assms show ?thesis by (simp add: chunks_Inr)
qed

theorem chunks_lengths_witness:
  "(1::int) \<le> 3 \<and> (\<exists>cs. chunks 1 3 = Inr cs \<and>
     map (\<lambda>(s, e). e - s) cs = replicate (nat 3 - 1) (1 div 3) @ [1 div 3 + 1 mod (3::int)])"
  using chunks_lengths [of 3 1] by simp

text \<open>
  C12. Partition and reassembly are inverse: for a vector of \<open>size\<close> elements and at
  least one thread, the slices \<open>vector[start:end]\<close> of the chunks, concatenated in
  thread order, give back the vector. No element is lost or read twice.
\<close>

theorem chunks_slices_roundtrip:
  assumes "1 \<le> k" "length xs = nat n"
  shows "\<exists>cs. chunks n k = Inr cs \<and> concat (map (\<lambda>(s, e). py_slice xs s e) cs) = xs"
  using assms chunk_slices_concat [of k xs n] by (simp add: chunks_Inr)

theorem chunks_slices_roundtrip_witness:
  "(1::int) \<le> 3 \<and> length [5, 6, 7, 8, 9::int] = nat 5 \<and>
   chunks 5 3 = Inr [(0, 1), (1, 2), (2, 5)] \<and>
   concat (map (\<lambda>(s, e). py_slice [5, 6, 7, 8, 9::int] s e) [(0, 1), (1, 2), (2, 5)]) = [5, 6, 7, 8, 9]"
proof -
  have c: "chunks 5 3 = Inr [(0, 1), (1, 2), (2, 5)]"
    by (simp add: chunks_def py_floordiv_def py_range_def chunk_start_def chunk_end_def upto.simps)
  show ?thesis using chunks_slices_roundtrip [of 3 "[5, 6, 7, 8, 9::int]" 5] c by simp
qed

end
