(* ===== verification/Reducer.thy ===== *)
theory Reducer
  imports Partition
begin

text \<open>
  The class \<open>VectorSum\<close> of \<open>src/main.py\<close> (lines 6--48) without its clock: its
  fields as a record, the sequential reduction \<open>_sum_vector\<close>, the worker body
  \<open>partial_sum\<close> and the threaded reduction \<open>_sum_vector_with_threads\<close>. This
  theory runs each thread to completion as soon as it is started, one schedule among
  those the interpreter may choose; theory \<open>Threads\<close> models every interleaving and
  shows that they all agree with this one.
\<close>

record 'a vector_sum =
  vsize :: int
  num_threads :: int
  vector :: "'a list"

text \<open>What \<open>__init__\<close> establishes: \<open>range(size)\<close> yields \<open>max 0 size\<close> elements.\<close>

definition vector_sum_inv :: "'a vector_sum \<Rightarrow> bool" where
  "vector_sum_inv self \<longleftrightarrow> length (vector self) = nat (vsize self)"

definition sum_vector :: "'a::monoid_add vector_sum \<Rightarrow> 'a" where
  "sum_vector self = py_sum (vector self)"

text \<open>
  The worker \<open>partial_sum(start, end, index)\<close>: it writes the sum of its slice into
  slot \<open>index\<close> of the shared list \<open>total_sum\<close>, and fails if the slot does not
  exist.
\<close>

definition partial_sum ::
  "'a::monoid_add list \<Rightarrow> int \<Rightarrow> int \<Rightarrow> int \<Rightarrow> 'a list \<Rightarrow> 'a list py_result" where
  "partial_sum vec start stop index total_sum =
     py_setitem total_sum index (py_sum (py_slice vec start stop))"

text \<open>
  What a finished thread leaves in the shared list. An exception raised by a thread's
  target does not reach the thread that started it: \<open>threading\<close> reports it through
  \<open>threading.excepthook\<close> and the thread ends, so the list keeps its old contents.
\<close>

definition thread_outcome :: "'a list py_result \<Rightarrow> 'a list \<Rightarrow> 'a list" where
  "thread_outcome r total_sum = (case r of Inl _ \<Rightarrow> total_sum | Inr t \<Rightarrow> t)"

text \<open>
  The loop of lines 26--31 under the schedule in which each started thread runs to
  its end before the loop goes on; the joins of lines 33--34 then return at once.
\<close>

fun spawn_all ::
  "'a::monoid_add list \<Rightarrow> int \<Rightarrow> int \<Rightarrow> int \<Rightarrow> int list \<Rightarrow> 'a list \<Rightarrow> 'a list" where
  "spawn_all vec vsz k chunk_size [] total_sum = total_sum"
| "spawn_all vec vsz k chunk_size (i # is) total_sum =
     spawn_all vec vsz k chunk_size is
       (thread_outcome
          (partial_sum vec (chunk_start chunk_size i) (chunk_end vsz k chunk_size i) i total_sum)
          total_sum)"

definition sum_vector_with_threads :: "'a::monoid_add vector_sum \<Rightarrow> 'a py_result" where
  "sum_vector_with_threads self =
     (let total_sum = py_list_mul 0 (num_threads self)
      in case py_floordiv (vsize self) (num_threads self) of
           Inl e \<Rightarrow> Inl e
         | Inr chunk_size \<Rightarrow>
             Inr (py_sum (spawn_all (vector self) (vsize self) (num_threads self) chunk_size
                            (py_range (num_threads self)) total_sum)))"

text \<open>The value thread \<open>i\<close> computes: the sum of its chunk.\<close>

abbreviation chunk_sum :: "'a::monoid_add list \<Rightarrow> int \<Rightarrow> int \<Rightarrow> int \<Rightarrow> 'a" where
  "chunk_sum vec n k i \<equiv> py_sum (py_slice vec (chunk_start (n div k) i) (chunk_end n k (n div k) i))"

subsection \<open>The worker\<close>

lemma partial_sum_in_range:
  "0 \<le> index \<Longrightarrow> index < int (length total_sum) \<Longrightarrow>
   partial_sum vec start stop index total_sum =
     Inr (total_sum[nat index := py_sum (py_slice vec start stop)])"
  by (simp add: partial_sum_def py_setitem_in_range)

lemma spawn_all_in_range:
  "\<forall>i \<in> set is. 0 \<le> i \<and> i < int (length total_sum) \<Longrightarrow>
   spawn_all vec n k (n div k) is total_sum =
     foldl (\<lambda>t i. t[nat i := chunk_sum vec n k i]) total_sum is"
  by (induction "is" arbitrary: total_sum) (simp_all add: partial_sum_in_range thread_outcome_def)

lemma spawn_all_snoc:
  "spawn_all vec n k c (is @ [i]) t =
     thread_outcome (partial_sum vec (chunk_start c i) (chunk_end n k c i) i (spawn_all vec n k c is t))
       (spawn_all vec n k c is t)"
  by (induction "is" arbitrary: t) simp_all

text \<open>With at least one thread, the slots end up holding the chunk sums in chunk order.\<close>

lemma spawn_all_chunk_sums:
  "spawn_all vec n k (n div k) (py_range k) (py_list_mul 0 k) =
           map (chunk_sum vec n k \<circ> int) [0..<nat k]"
proof -
  have "spawn_all vec n k (n div k) (py_range k) (py_list_mul 0 k) =
          foldl (\<lambda>t i. t[nat i := chunk_sum vec n k i]) (py_list_mul 0 k) (map int [0..<nat k])"
    by (subst spawn_all_in_range) (auto simp: py_range_eq)
  also have "\<dots> = foldl (\<lambda>t j. t[j := chunk_sum vec n k (int j)]) (py_list_mul 0 k) [0..<nat k]"
    by (simp add: foldl_map)
  also have "\<dots> = map (chunk_sum vec n k \<circ> int) [0..<nat k]"
    by (simp add: foldl_update_upt comp_def)
  finally show ?thesis .
qed

text \<open>Summing the chunk sums in index order gives the sum of the whole vector.\<close>

lemma chunk_sums_total:
  assumes "0 < k" and inv: "length vec = nat n"
  shows "sum_list (map (chunk_sum vec n k \<circ> int) [0..<nat k]) = sum_list (vec::'a::monoid_add list)"
proof -
  have "map (chunk_sum vec n k \<circ> int) [0..<nat k] =
          map sum_list (map (\<lambda>(s, e). py_slice vec s e) (map (chunk_bounds n k) (py_range k)))"
    by (simp add: py_range_eq comp_def)
  then have "sum_list (map (chunk_sum vec n k \<circ> int) [0..<nat k]) =
               sum_list (concat (map (\<lambda>(s, e). py_slice vec s e) (map (chunk_bounds n k) (py_range k))))"
    by (simp only: sum_list_concat_map)
  with chunk_slices_concat [OF assms] show ?thesis by simp
qed

text \<open>Whenever it returns, the threaded reduction returns the sum of the chunk sums.\<close>

lemma sum_vector_with_threads_chunk_sums:
  "num_threads self \<noteq> 0 \<Longrightarrow>
   sum_vector_with_threads self =
     Inr (sum_list (map (chunk_sum (vector self) (vsize self) (num_threads self) \<circ> int)
                     [0..<nat (num_threads self)]))"
  by (simp add: sum_vector_with_threads_def py_floordiv_def spawn_all_chunk_sums)

lemma sum_vector_with_threads_zero:
  "num_threads self = 0 \<Longrightarrow> sum_vector_with_threads self = Inl ZeroDivisionError"
  by (simp add: sum_vector_with_threads_def py_floordiv_def Let_def)

lemma sum_vector_with_threads_sum:
  assumes "vector_sum_inv vs" "0 < num_threads vs"
  shows "sum_vector_with_threads vs = Inr (sum_vector vs)"
proof -
  have "sum_list (map (chunk_sum (vector vs) (vsize vs) (num_threads vs) \<circ> int) [0..<nat (num_threads vs)])
          = sum_list (vector vs)"
    using assms by (intro chunk_sums_total) (simp_all add: vector_sum_inv_def)
  with assms(2) show ?thesis
    by (simp add: sum_vector_with_threads_chunk_sums sum_vector_def)
qed

subsection \<open>Properties of the reducer\<close>

text \<open>
  C1. Equivalence of the two reductions: on a \<open>VectorSum\<close> built by its constructor
  and at least one thread, \<open>_sum_vector_with_threads\<close> returns what \<open>_sum_vector\<close>
  returns. Only associativity and the unit \<open>0\<close> are used, so this holds for Python's
  integers and for any fixed-width re-implementation alike.
\<close>

theorem sum_vector_with_threads_eq_sum_vector:
  assumes "vector_sum_inv vs" "1 \<le> num_threads vs"
  shows "sum_vector_with_threads vs = Inr (sum_vector vs)"
  using assms by (simp add: sum_vector_with_threads_sum)

theorem sum_vector_with_threads_eq_sum_vector_witness:
  "vector_sum_inv \<lparr>vsize = 8, num_threads = 4, vector = [1, 2, 3, 4, 5, 6, 7, 8::int]\<rparr> \<and>
   1 \<le> num_threads \<lparr>vsize = 8, num_threads = 4, vector = [1, 2, 3, 4, 5, 6, 7, 8::int]\<rparr> \<and>
   sum_vector_with_threads \<lparr>vsize = 8, num_threads = 4, vector = [1, 2, 3, 4, 5, 6, 7, 8::int]\<rparr> = Inr 36"
  using sum_vector_with_threads_eq_sum_vector
    [of "\<lparr>vsize = 8, num_threads = 4, vector = [1, 2, 3, 4, 5, 6, 7, 8::int]\<rparr>"]
  by (simp add: vector_sum_inv_def sum_vector_def)

text \<open>
  C20. The threaded reduction raises exactly when \<open>num_threads = 0\<close>, and then raises
  \<open>ZeroDivisionError\<close> from \<open>size // num_threads\<close> before any thread starts.
\<close>

theorem sum_vector_with_threads_error:
  "sum_vector_with_threads vs = Inl e \<longleftrightarrow> num_threads vs = 0 \<and> e = ZeroDivisionError"
  by (auto simp: sum_vector_with_threads_def py_floordiv_def Let_def)

text \<open>
  C21. A negative thread count is not rejected: \<open>range(num_threads)\<close> is empty, no
  thread starts, and the threaded reduction returns \<open>0\<close> whatever the vector holds.
\<close>

theorem sum_vector_with_threads_negative:
  assumes "num_threads vs < 0"
  shows "sum_vector_with_threads vs = Inr 0"
proof -
  have "py_range (num_threads vs) = []"
    using assms by (simp add: py_range_def)
  with assms show ?thesis
    by (simp add: sum_vector_with_threads_def py_floordiv_def py_list_mul_def)
qed

theorem sum_vector_with_threads_negative_witness:
  "num_threads \<lparr>vsize = 3, num_threads = -2, vector = [5, 6, 7::int]\<rparr> < 0 \<and>
   sum_vector_with_threads \<lparr>vsize = 3, num_threads = -2, vector = [5, 6, 7::int]\<rparr> = Inr 0 \<and>
   sum_vector \<lparr>vsize = 3, num_threads = -2, vector = [5, 6, 7::int]\<rparr> = 18"
  using sum_vector_with_threads_negative [of "\<lparr>vsize = 3, num_threads = -2, vector = [5, 6, 7::int]\<rparr>"]
  by (simp add: sum_vector_def)

end
