(* ===== verification/Threads.thy ===== *)
theory Threads
  imports Reducer
begin

text \<open>
  Every interleaving of \<open>_sum_vector_with_threads\<close> (\<open>src/main.py\<close>, lines 18--36).
  The state is the shared list \<open>total_sum\<close>, the list \<open>threads\<close> of started threads
  and the main thread's position: in the start loop (lines 26--31, with the iterations
  of \<open>range(num_threads)\<close> still to run), in the join loop (lines 33--34, at the
  thread it joins next) or returned (line 36). A worker runs \<open>partial_sum\<close>: it takes
  its slice, adds its elements one at a time as \<open>sum\<close> does, and then stores the total
  into its slot; each of these is one atomic step, finer than the interpreter's lock
  makes them, so every schedule of the real program is a run of the model. A step is
  either the main thread's next step or the next step of any one started thread
  (\<open>run_step\<close>); \<open>join\<close> blocks by having no step until its thread has finished.
  The run starts after lines 19 and 25, so only when \<open>num_threads \<noteq> 0\<close>.
\<close>

datatype 'a worker =
    Started int int int
  | Summing "'a list" 'a int
  | Finished

datatype 'a main_pc =
    Spawning "int list"
  | Joining nat
  | Returned 'a

record 'a run_state =
  total_sum :: "'a list"
  threads :: "'a worker list"
  pc :: "'a main_pc"

definition run_init :: "'a::monoid_add vector_sum \<Rightarrow> 'a run_state" where
  "run_init self =
     \<lparr>total_sum = py_list_mul 0 (num_threads self), threads = [],
      pc = Spawning (py_range (num_threads self))\<rparr>"

text \<open>The next atomic step of one worker, \<open>None\<close> once it has finished.\<close>

fun thread_move ::
  "'a::monoid_add list \<Rightarrow> 'a worker \<Rightarrow> 'a list \<Rightarrow> ('a worker \<times> 'a list) option" where
  "thread_move vec (Started start stop index) tot = Some (Summing (py_slice vec start stop) 0 index, tot)"
| "thread_move vec (Summing (x # xs) acc index) tot = Some (Summing xs (acc + x) index, tot)"
| "thread_move vec (Summing [] acc index) tot =
     Some (Finished, thread_outcome (py_setitem tot index acc) tot)"
| "thread_move vec Finished tot = None"

text \<open>The next step of the main thread, \<open>None\<close> while it waits in \<open>join\<close> or after it returned.\<close>

fun main_move :: "'a::monoid_add vector_sum \<Rightarrow> 'a run_state \<Rightarrow> 'a run_state option" where
  "main_move self s =
     (case pc s of
        Spawning (i # is) \<Rightarrow>
          (let n = vsize self; k = num_threads self; chunk_size = n div k
           in Some (s\<lparr>threads := threads s @ [Started (chunk_start chunk_size i) (chunk_end n k chunk_size i) i],
                     pc := Spawning is\<rparr>))
      | Spawning [] \<Rightarrow> Some (s\<lparr>pc := Joining 0\<rparr>)
      | Joining j \<Rightarrow>
          (if j < length (threads s)
           then (case threads s ! j of Finished \<Rightarrow> Some (s\<lparr>pc := Joining (Suc j)\<rparr>) | _ \<Rightarrow> None)
           else Some (s\<lparr>pc := Returned (py_sum (total_sum s))\<rparr>))
      | Returned r \<Rightarrow> None)"

inductive run_step :: "'a::monoid_add vector_sum \<Rightarrow> 'a run_state \<Rightarrow> 'a run_state \<Rightarrow> bool"
  for self where
  main: "main_move self s = Some t \<Longrightarrow> run_step self s t"
| worker: "j < length (threads s) \<Longrightarrow>
    thread_move (vector self) (threads s ! j) (total_sum s) = Some (w, tot) \<Longrightarrow>
    run_step self s (s\<lparr>threads := (threads s)[j := w], total_sum := tot\<rparr>)"

inductive run_reachable :: "'a::monoid_add vector_sum \<Rightarrow> 'a run_state \<Rightarrow> bool"
  for self where
  init: "num_threads self \<noteq> 0 \<Longrightarrow> run_reachable self (run_init self)"
| step: "run_reachable self s \<Longrightarrow> run_step self s t \<Longrightarrow> run_reachable self t"

text \<open>
  One schedule, executable: the main thread moves while it can, and while it waits in
  \<open>join\<close> the thread it waits for moves.
\<close>

definition sched_step :: "'a::monoid_add vector_sum \<Rightarrow> 'a run_state \<Rightarrow> 'a run_state option" where
  "sched_step self s =
     (case main_move self s of
        Some t \<Rightarrow> Some t
      | None \<Rightarrow>
          (case pc s of
             Joining j \<Rightarrow>
               (if j < length (threads s)
                then map_option (\<lambda>(w, tot). s\<lparr>threads := (threads s)[j := w], total_sum := tot\<rparr>)
                       (thread_move (vector self) (threads s ! j) (total_sum s))
                else None)
           | _ \<Rightarrow> None))"

fun run_sched :: "nat \<Rightarrow> 'a::monoid_add vector_sum \<Rightarrow> 'a run_state \<Rightarrow> 'a run_state" where
  "run_sched 0 self s = s"
| "run_sched (Suc fuel) self s =
     (case sched_step self s of None \<Rightarrow> s | Some t \<Rightarrow> run_sched fuel self t)"

text \<open>
  A measure that every step decreases: a thread still to be started weighs more than a
  started one, which weighs its remaining elements plus the final store.
\<close>

fun worker_weight :: "nat \<Rightarrow> 'a worker \<Rightarrow> nat" where
  "worker_weight len (Started start stop index) = len + 2"
| "worker_weight len (Summing xs acc index) = length xs + 1"
| "worker_weight len Finished = 0"

fun main_weight :: "nat \<Rightarrow> nat \<Rightarrow> 'a main_pc \<Rightarrow> nat" where
  "main_weight len nts (Spawning is) = length is * (len + 4) + nts + 2"
| "main_weight len nts (Joining j) = nts - j + 1"
| "main_weight len nts (Returned r) = 0"

definition run_measure :: "'a vector_sum \<Rightarrow> 'a run_state \<Rightarrow> nat" where
  "run_measure self s =
     main_weight (length (vector self)) (length (threads s)) (pc s)
     + sum_list (map (worker_weight (length (vector self))) (threads s))"

text \<open>
  The states of the run-to-completion schedule of theory \<open>Reducer\<close>: after \<open>m\<close>
  iterations of the start loop, threads \<open>0, \<dots>, m - 1\<close> have finished and the shared
  list is what \<open>spawn_all\<close> has made of it.
\<close>

definition eager_state :: "'a::monoid_add vector_sum \<Rightarrow> nat \<Rightarrow> 'a run_state" where
  "eager_state self m =
     \<lparr>total_sum = spawn_all (vector self) (vsize self) (num_threads self) (vsize self div num_threads self)
                    (take m (py_range (num_threads self))) (py_list_mul 0 (num_threads self)),
      threads = replicate m Finished,
      pc = Spawning (drop m (py_range (num_threads self)))\<rparr>"

text \<open>
  The invariant. Thread \<open>m\<close> was started with the \<open>m\<close>-th chunk and index \<open>m\<close>; until
  it stores, its slot still holds the \<open>0\<close> of \<open>[0] * num_threads\<close> and its running
  total plus the elements it has not added yet is the sum of its chunk; once it has
  finished, its slot holds that sum. Slots of threads not yet started hold \<open>0\<close>.
\<close>

fun worker_ok :: "'a::monoid_add vector_sum \<Rightarrow> nat \<Rightarrow> 'a worker \<Rightarrow> 'a list \<Rightarrow> bool" where
  "worker_ok self m (Started start stop index) tot \<longleftrightarrow>
     (start, stop) = chunk_bounds (vsize self) (num_threads self) (int m) \<and> index = int m \<and> tot ! m = 0"
| "worker_ok self m (Summing xs acc index) tot \<longleftrightarrow>
     index = int m \<and> acc + sum_list xs = chunk_sum (vector self) (vsize self) (num_threads self) (int m)
     \<and> tot ! m = 0"
| "worker_ok self m Finished tot \<longleftrightarrow>
     tot ! m = chunk_sum (vector self) (vsize self) (num_threads self) (int m)"

fun pc_ok :: "'a::monoid_add vector_sum \<Rightarrow> 'a run_state \<Rightarrow> bool" where
  "pc_ok self s =
     (case pc s of
        Spawning is \<Rightarrow> is = drop (length (threads s)) (py_range (num_threads self))
      | Joining j \<Rightarrow> length (threads s) = nat (num_threads self) \<and> j \<le> length (threads s)
          \<and> (\<forall>m < j. threads s ! m = Finished)
      | Returned r \<Rightarrow> length (threads s) = nat (num_threads self)
          \<and> (\<forall>m < length (threads s). threads s ! m = Finished) \<and> r = py_sum (total_sum s))"

definition run_inv :: "'a::monoid_add vector_sum \<Rightarrow> 'a run_state \<Rightarrow> bool" where
  "run_inv self s \<longleftrightarrow>
     num_threads self \<noteq> 0
     \<and> length (total_sum s) = nat (num_threads self)
     \<and> length (threads s) \<le> nat (num_threads self)
     \<and> (\<forall>m < length (threads s). worker_ok self m (threads s ! m) (total_sum s))
     \<and> (\<forall>m. length (threads s) \<le> m \<and> m < nat (num_threads self) \<longrightarrow> total_sum s ! m = 0)
     \<and> pc_ok self s"

subsection \<open>Every step decreases the measure\<close>

lemma sum_list_map_update_less:
  assumes "j < length ws" "f w < f (ws ! j)"
  shows "sum_list (map f (ws[j := w])) < sum_list (map f ws :: nat list)"
proof -
  have "f (ws ! j) \<le> sum_list (map f ws)"
    using assms(1) elem_le_sum_list [of j "map f ws"] by simp
  then show ?thesis
    using assms by (simp add: map_update sum_list_update)
qed

lemma thread_move_weight:
  "thread_move vec w tot = Some (w', tot') \<Longrightarrow>
   worker_weight (length vec) w' < worker_weight (length vec) w"
  using length_py_slice_le [of vec]
  by (cases "(vec, w, tot)" rule: thread_move.cases) (auto simp: le_imp_less_Suc)

lemma main_move_measure:
  "main_move self s = Some t \<Longrightarrow> run_measure self t < run_measure self s"
  by (auto simp: run_measure_def Let_def split: main_pc.splits list.splits if_splits worker.splits)

lemma run_step_measure:
  "run_step self s t \<Longrightarrow> run_measure self t < run_measure self s"
proof (induction rule: run_step.induct)
  case (main s t)
  then show ?case by (rule main_move_measure)
next
  case (worker j s w tot)
  then show ?case
    by (simp add: run_measure_def sum_list_map_update_less thread_move_weight)
qed

subsection \<open>The invariant\<close>

lemma run_inv_init: "num_threads self \<noteq> 0 \<Longrightarrow> run_inv self (run_init self)"
  by (simp add: run_inv_def run_init_def py_list_mul_def)

text \<open>A thread that stores writes only its own slot, and the others keep their state.\<close>

lemma worker_ok_other_slot:
  "m \<noteq> j \<Longrightarrow> worker_ok self m w (tot[j := v]) = worker_ok self m w tot"
  by (cases w) simp_all

lemma thread_move_inv:
  assumes inv: "run_inv self s" and j: "j < length (threads s)"
    and mv: "thread_move (vector self) (threads s ! j) (total_sum s) = Some (w, tot)"
  shows "run_inv self (s\<lparr>threads := (threads s)[j := w], total_sum := tot\<rparr>)"
proof -
  let ?ts = "threads s" and ?tot = "total_sum s"
  have okj: "worker_ok self j (?ts ! j) ?tot"
    using inv j by (simp add: run_inv_def)
  have len: "j < length ?tot"
    using inv j by (simp add: run_inv_def)
  show ?thesis
  proof (cases "?ts ! j")
    case (Started a b idx)
    then show ?thesis using inv mv okj j
      by (auto simp: run_inv_def nth_list_update split: main_pc.splits)
  next
    case (Summing xs acc idx)
    show ?thesis
    proof (cases xs)
      case Nil
      with Summing okj len have tot: "tot = ?tot[j := acc]" and accv:
          "acc = chunk_sum (vector self) (vsize self) (num_threads self) (int j)"
        using mv by (simp_all add: thread_outcome_def py_setitem_in_range)
      have others: "\<forall>m < length ?ts. m \<noteq> j \<longrightarrow> worker_ok self m (?ts ! m) tot"
        using inv tot by (simp add: run_inv_def worker_ok_other_slot)
      have fin: "(?ts[j := w]) ! m = Finished" if "m < length ?ts" "?ts ! m = Finished" for m
        using that mv Summing Nil by (cases "m = j") simp_all
      show ?thesis
        using inv others tot accv len j mv Summing Nil fin
        by (auto simp: run_inv_def nth_list_update split: main_pc.splits)
    next
      case (Cons x xs')
      with Summing show ?thesis using inv mv okj j
        by (auto simp: run_inv_def nth_list_update add.assoc split: main_pc.splits)
    qed
  next
    case Finished
    with mv show ?thesis by simp
  qed
qed

lemma drop_py_range: "drop m (py_range k) = map int [m..<nat k]"
  by (simp add: py_range_eq drop_map drop_upt)

lemma drop_py_range_Cons:
  "drop m (py_range k) = i # rest \<Longrightarrow> i = int m \<and> rest = drop (Suc m) (py_range k) \<and> m < nat k"
  unfolding drop_py_range by (cases "m < nat k") (simp_all add: upt_conv_Cons)

lemma drop_py_range_Nil: "drop m (py_range k) = [] \<Longrightarrow> nat k \<le> m"
  by simp

lemma main_move_inv:
  assumes inv: "run_inv self s" and mv: "main_move self s = Some t"
  shows "run_inv self t"
proof (cases "pc s")
  case (Spawning iters)
  show ?thesis
  proof (cases iters)
    case Nil
    with Spawning inv mv show ?thesis
      by (auto simp: run_inv_def dest!: drop_py_range_Nil)
  next
    case (Cons i rest)
    let ?m = "length (threads s)"
    from Spawning Cons inv have "drop ?m (py_range (num_threads self)) = i # rest"
      by (simp add: run_inv_def)
    then have i: "i = int ?m" and rest: "rest = drop (Suc ?m) (py_range (num_threads self))"
      and m: "?m < nat (num_threads self)"
      by (auto dest: drop_py_range_Cons)
    have z: "total_sum s ! ?m = 0"
      using inv m by (simp add: run_inv_def)
    have t: "t = s\<lparr>threads := threads s @ [Started (chunk_start (vsize self div num_threads self) i)
                     (chunk_end (vsize self) (num_threads self) (vsize self div num_threads self) i) i],
                   pc := Spawning rest\<rparr>"
      using Spawning Cons mv by (simp add: Let_def)
    have "\<forall>m < Suc ?m. worker_ok self m ((threads s @ [Started (chunk_start (vsize self div num_threads self) i)
                     (chunk_end (vsize self) (num_threads self) (vsize self div num_threads self) i) i]) ! m)
             (total_sum s)"
      using inv z i by (auto simp: run_inv_def nth_append less_Suc_eq)
    with inv i rest m show ?thesis
      unfolding t by (auto simp: run_inv_def)
  qed
next
  case (Joining j)
  show ?thesis
  proof (cases "j < length (threads s)")
    case True
    with Joining mv have fin: "threads s ! j = Finished" and t: "t = s\<lparr>pc := Joining (Suc j)\<rparr>"
      by (auto split: worker.splits)
    have "\<forall>m < Suc j. threads s ! m = Finished"
      using Joining inv fin by (auto simp: run_inv_def less_Suc_eq)
    with Joining inv True t show ?thesis
      by (auto simp: run_inv_def)
  next
    case False
    with Joining inv mv show ?thesis
      by (auto simp: run_inv_def)
  qed
next
  case (Returned r)
  with mv show ?thesis by simp
qed

lemma run_step_inv: "run_step self s t \<Longrightarrow> run_inv self s \<Longrightarrow> run_inv self t"
  by (induction rule: run_step.induct) (auto intro: main_move_inv thread_move_inv)

lemma run_reachable_inv: "run_reachable self s \<Longrightarrow> run_inv self s"
  by (induction rule: run_reachable.induct) (auto intro: run_inv_init run_step_inv)

subsection \<open>Returned states, progress and the scheduler\<close>

lemma run_inv_returned:
  assumes inv: "run_inv self s" and ret: "pc s = Returned r"
  shows "r = sum_list (map (chunk_sum (vector self) (vsize self) (num_threads self) \<circ> int)
                         [0..<nat (num_threads self)])"
proof -
  have fin: "\<forall>m < nat (num_threads self). threads s ! m = Finished"
    and len: "length (threads s) = nat (num_threads self)"
    and r: "r = py_sum (total_sum s)"
    using inv ret by (simp_all add: run_inv_def)
  have "\<forall>m < nat (num_threads self). worker_ok self m (threads s ! m) (total_sum s)"
    using inv len by (simp add: run_inv_def)
  with fin have "\<forall>m < nat (num_threads self).
      total_sum s ! m = chunk_sum (vector self) (vsize self) (num_threads self) (int m)"
    by auto
  then have "total_sum s = map (chunk_sum (vector self) (vsize self) (num_threads self) \<circ> int)
                               [0..<nat (num_threads self)]"
    using inv by (intro nth_equalityI) (simp_all add: run_inv_def)
  with r show ?thesis by simp
qed

lemma sched_step_sound: "sched_step self s = Some t \<Longrightarrow> run_step self s t"
  by (auto simp: sched_step_def intro: run_step.intros split: option.splits main_pc.splits if_splits)

lemma thread_move_unfinished: "w \<noteq> Finished \<Longrightarrow> \<exists>w' tot'. thread_move vec w tot = Some (w', tot')"
  by (cases "(vec, w, tot)" rule: thread_move.cases) simp_all

lemma sched_step_progress:
  assumes inv: "run_inv self s" and nret: "\<forall>r. pc s \<noteq> Returned r"
  shows "sched_step self s \<noteq> None"
proof (cases "pc s")
  case (Spawning iters)
  then show ?thesis by (cases iters) (simp_all add: sched_step_def Let_def)
next
  case (Joining j)
  show ?thesis
  proof (cases "j < length (threads s) \<and> threads s ! j \<noteq> Finished")
    case True
    then obtain w' tot' where "thread_move (vector self) (threads s ! j) (total_sum s) = Some (w', tot')"
      using thread_move_unfinished by blast
    with Joining True show ?thesis
      by (auto simp: sched_step_def split: worker.splits)
  next
    case False
    with Joining show ?thesis by (auto simp: sched_step_def)
  qed
next
  case (Returned r)
  with nret show ?thesis by simp
qed

lemma returned_no_step:
  assumes inv: "run_inv self s" and ret: "pc s = Returned r"
  shows "\<not> run_step self s t"
proof
  assume "run_step self s t"
  then show False
  proof cases
    case main
    with ret show False by simp
  next
    case (worker j w tot)
    with inv ret have "threads s ! j = Finished" by (simp add: run_inv_def)
    with worker show False by simp
  qed
qed

lemma run_measure_zero: "run_measure self s = 0 \<Longrightarrow> \<exists>r. pc s = Returned r"
  by (cases "pc s") (simp_all add: run_measure_def)

lemma sched_step_returned: "pc s = Returned r \<Longrightarrow> sched_step self s = None"
  by (simp add: sched_step_def)

lemma run_sched_reaches:
  "run_reachable self s \<Longrightarrow> run_measure self s \<le> fuel \<Longrightarrow>
   (run_step self)\<^sup>*\<^sup>* s (run_sched fuel self s) \<and> (\<exists>r. pc (run_sched fuel self s) = Returned r)"
proof (induction fuel arbitrary: s)
  case 0
  then show ?case by (simp add: run_measure_zero)
next
  case (Suc fuel)
  show ?case
  proof (cases "\<exists>r. pc s = Returned r")
    case True
    then show ?thesis by (auto simp: sched_step_returned)
  next
    case False
    have inv: "run_inv self s" using Suc.prems(1) by (rule run_reachable_inv)
    with False obtain t where t: "sched_step self s = Some t"
      using sched_step_progress by fastforce
    then have st: "run_step self s t" by (rule sched_step_sound)
    then have "run_measure self t \<le> fuel"
      using Suc.prems(2) run_step_measure [OF st] by simp
    moreover have "run_reachable self t"
      using Suc.prems(1) st by (rule run_reachable.step)
    ultimately have "(run_step self)\<^sup>*\<^sup>* t (run_sched fuel self t) \<and>
                     (\<exists>r. pc (run_sched fuel self t) = Returned r)"
      by (intro Suc.IH)
    with t st show ?thesis by (simp add: converse_rtranclp_into_rtranclp)
  qed
qed

lemma run_reachable_star:
  "(run_step self)\<^sup>*\<^sup>* s t \<Longrightarrow> run_reachable self s \<Longrightarrow> run_reachable self t"
  by (induction rule: rtranclp_induct) (auto intro: run_reachable.step)

lemma run_reachable_run_sched:
  "run_reachable self s \<Longrightarrow> run_reachable self (run_sched fuel self s)"
proof (induction fuel arbitrary: s)
  case 0
  then show ?case by simp
next
  case (Suc fuel)
  then show ?case
    by (auto split: option.splits intro: run_reachable.step sched_step_sound)
qed

subsection \<open>The run-to-completion schedule is a run\<close>

lemma summing_steps:
  "j < length (threads s) \<Longrightarrow> threads s ! j = Summing xs acc idx \<Longrightarrow>
   (run_step self)\<^sup>*\<^sup>* s (s\<lparr>threads := (threads s)[j := Summing [] (acc + sum_list xs) idx]\<rparr>)"
proof (induction xs arbitrary: acc s)
  case Nil
  then have "(threads s)[j := Summing [] (acc + sum_list []) idx] = threads s"
    by (metis add_0_right list_update_id sum_list.Nil)
  then show ?case by simp
next
  case (Cons x xs)
  let ?t = "s\<lparr>threads := (threads s)[j := Summing xs (acc + x) idx], total_sum := total_sum s\<rparr>"
  have "run_step self s ?t"
    using Cons.prems by (intro run_step.worker) simp_all
  moreover have "(run_step self)\<^sup>*\<^sup>* ?t (?t\<lparr>threads := (threads ?t)[j := Summing [] (acc + x + sum_list xs) idx]\<rparr>)"
    using Cons.prems by (intro Cons.IH) simp_all
  ultimately show ?case
    by (simp add: add.assoc converse_rtranclp_into_rtranclp)
qed

lemma joining_steps:
  assumes "\<forall>m < length (threads s). threads s ! m = Finished" "j \<le> length (threads s)"
  shows "(run_step self)\<^sup>*\<^sup>* (s\<lparr>pc := Joining j\<rparr>) (s\<lparr>pc := Joining (length (threads s))\<rparr>)"
  using assms(2)
proof (induction "length (threads s) - j" arbitrary: j)
  case 0
  then show ?case by simp
next
  case (Suc d)
  then have "run_step self (s\<lparr>pc := Joining j\<rparr>) (s\<lparr>pc := Joining (Suc j)\<rparr>)"
    using assms(1) by (intro run_step.main) simp
  moreover have "(run_step self)\<^sup>*\<^sup>* (s\<lparr>pc := Joining (Suc j)\<rparr>) (s\<lparr>pc := Joining (length (threads s))\<rparr>)"
    using Suc by (intro Suc.hyps(1)) simp_all
  ultimately show ?case by (rule converse_rtranclp_into_rtranclp)
qed

lemma take_Suc_py_range: "m < nat k \<Longrightarrow> take (Suc m) (py_range k) = take m (py_range k) @ [int m]"
  by (simp add: py_range_eq take_Suc_conv_app_nth)

lemma drop_py_range_less: "m < nat k \<Longrightarrow> drop m (py_range k) = int m # drop (Suc m) (py_range k)"
  by (simp add: drop_py_range upt_conv_Cons)

lemma eager_state_step:
  assumes "m < nat (num_threads self)"
  shows "(run_step self)\<^sup>*\<^sup>* (eager_state self m) (eager_state self (Suc m))"
proof -
  let ?k = "num_threads self" and ?n = "vsize self"
  let ?c = "?n div ?k" and ?vec = "vector self"
  let ?st = "chunk_start ?c (int m)" and ?en = "chunk_end ?n ?k ?c (int m)"
  let ?tot = "total_sum (eager_state self m)"
  let ?ws = "\<lambda>w. replicate m Finished @ [w]"
  let ?s1 = "eager_state self m\<lparr>threads := ?ws (Started ?st ?en (int m)),
                                 pc := Spawning (drop (Suc m) (py_range ?k))\<rparr>"
  let ?s2 = "?s1\<lparr>threads := ?ws (Summing (py_slice ?vec ?st ?en) 0 (int m))\<rparr>"
  let ?s3 = "?s1\<lparr>threads := ?ws (Summing [] (0 + sum_list (py_slice ?vec ?st ?en)) (int m))\<rparr>"
  have 1: "run_step self (eager_state self m) ?s1"
    using assms by (intro run_step.main) (simp add: eager_state_def drop_py_range_less Let_def)
  have 2: "run_step self ?s1 ?s2"
    using run_step.worker [of m ?s1 self "Summing (py_slice ?vec ?st ?en) 0 (int m)" ?tot]
    by (simp add: list_update_append nth_append eager_state_def)
  have 3: "(run_step self)\<^sup>*\<^sup>* ?s2 ?s3"
    using summing_steps [of m ?s2 "py_slice ?vec ?st ?en" 0 "int m" self]
    by (simp add: list_update_append nth_append)
  have "run_step self ?s3 (?s3\<lparr>threads := ?ws Finished,
           total_sum := thread_outcome (py_setitem ?tot (int m) (sum_list (py_slice ?vec ?st ?en))) ?tot\<rparr>)"
    using run_step.worker [of m ?s3 self Finished] by (simp add: list_update_append nth_append eager_state_def)
  moreover have "?s3\<lparr>threads := ?ws Finished,
           total_sum := thread_outcome (py_setitem ?tot (int m) (sum_list (py_slice ?vec ?st ?en))) ?tot\<rparr>
         = eager_state self (Suc m)"
    using assms by (simp add: eager_state_def take_Suc_py_range spawn_all_snoc partial_sum_def replicate_append_same)
  ultimately have 4: "run_step self ?s3 (eager_state self (Suc m))" by simp
  from 1 2 3 4 show ?thesis
    by (meson converse_rtranclp_into_rtranclp rtranclp.rtrancl_into_rtrancl)
qed

lemma eager_state_reachable:
  "num_threads self \<noteq> 0 \<Longrightarrow> m \<le> nat (num_threads self) \<Longrightarrow> run_reachable self (eager_state self m)"
proof (induction m)
  case 0
  have "eager_state self 0 = run_init self"
    by (simp add: eager_state_def run_init_def)
  with 0 show ?case by (simp add: run_reachable.init)
next
  case (Suc m)
  then show ?case
    using eager_state_step [of m self] run_reachable_star by simp
qed

lemma eager_state_returns:
  assumes "num_threads self \<noteq> 0"
  shows "(run_step self)\<^sup>*\<^sup>* (eager_state self (nat (num_threads self)))
           (eager_state self (nat (num_threads self))\<lparr>pc := Returned
              (py_sum (total_sum (eager_state self (nat (num_threads self)))))\<rparr>)"
proof -
  let ?s = "eager_state self (nat (num_threads self))"
  have fin: "\<forall>m < length (threads ?s). threads ?s ! m = Finished"
    by (simp add: eager_state_def)
  have "run_step self ?s (?s\<lparr>pc := Joining 0\<rparr>)"
    by (intro run_step.main) (simp add: eager_state_def)
  moreover have "(run_step self)\<^sup>*\<^sup>* (?s\<lparr>pc := Joining 0\<rparr>) (?s\<lparr>pc := Joining (length (threads ?s))\<rparr>)"
    using joining_steps [OF fin] by simp
  moreover have "run_step self (?s\<lparr>pc := Joining (length (threads ?s))\<rparr>)
                   (?s\<lparr>pc := Returned (py_sum (total_sum ?s))\<rparr>)"
    by (intro run_step.main) simp
  ultimately show ?thesis
    by (meson converse_rtranclp_into_rtranclp rtranclp.rtrancl_into_rtrancl)
qed

subsection \<open>Properties of the threaded run\<close>

text \<open>
  C2. Safety of every interleaving: on a \<open>VectorSum\<close> built by its constructor with at
  least one thread, whatever the schedule, when the main thread returns it returns
  \<open>_sum_vector\<close>'s total. No worker overwrites another's slot and the combine step
  reads only finished slots.
\<close>

theorem interleaving_result_eq_sum_vector:
  assumes "vector_sum_inv self" "1 \<le> num_threads self"
    and "run_reachable self s" "pc s = Returned r"
  shows "r = sum_vector self"
proof -
  have "r = sum_list (map (chunk_sum (vector self) (vsize self) (num_threads self) \<circ> int)
                       [0..<nat (num_threads self)])"
    using assms(3,4) by (intro run_inv_returned run_reachable_inv)
  also have "\<dots> = sum_list (vector self)"
    using assms(1,2) by (intro chunk_sums_total) (simp_all add: vector_sum_inv_def)
  finally show ?thesis by (simp add: sum_vector_def)
qed

theorem interleaving_result_eq_sum_vector_witness:
  "vector_sum_inv \<lparr>vsize = 3, num_threads = 2, vector = [1, 2, 3::int]\<rparr> \<and> 1 \<le> num_threads \<lparr>vsize = 3, num_threads = 2, vector = [1, 2, 3::int]\<rparr> \<and>
   run_reachable \<lparr>vsize = 3, num_threads = 2, vector = [1, 2, 3::int]\<rparr> (run_sched 20 \<lparr>vsize = 3, num_threads = 2, vector = [1, 2, 3::int]\<rparr> (run_init \<lparr>vsize = 3, num_threads = 2, vector = [1, 2, 3::int]\<rparr>)) \<and> pc (run_sched 20 \<lparr>vsize = 3, num_threads = 2, vector = [1, 2, 3::int]\<rparr> (run_init \<lparr>vsize = 3, num_threads = 2, vector = [1, 2, 3::int]\<rparr>)) = Returned 6 \<and> 6 = sum_vector \<lparr>vsize = 3, num_threads = 2, vector = [1, 2, 3::int]\<rparr>"
proof -
  have reach: "run_reachable \<lparr>vsize = 3, num_threads = 2, vector = [1, 2, 3::int]\<rparr> (run_sched 20 \<lparr>vsize = 3, num_threads = 2, vector = [1, 2, 3::int]\<rparr> (run_init \<lparr>vsize = 3, num_threads = 2, vector = [1, 2, 3::int]\<rparr>))"
    by (intro run_reachable_run_sched run_reachable.init) simp
  have ret: "pc (run_sched 20 \<lparr>vsize = 3, num_threads = 2, vector = [1, 2, 3::int]\<rparr> (run_init \<lparr>vsize = 3, num_threads = 2, vector = [1, 2, 3::int]\<rparr>)) = Returned 6"
    by code_simp
  show ?thesis
    using interleaving_result_eq_sum_vector [OF _ _ reach ret] reach ret
    by (simp add: vector_sum_inv_def sum_vector_def)
qed

text \<open>
  C3. Refinement: every interleaving that returns, returns what the run-to-completion
  model \<open>sum_vector_with_threads\<close> returns, for every thread count, negative ones
  included.
\<close>

theorem interleaving_refines_sum_vector_with_threads:
  assumes "run_reachable self s" "pc s = Returned r"
  shows "sum_vector_with_threads self = Inr r"
proof -
  have inv: "run_inv self s" using assms(1) by (rule run_reachable_inv)
  then have "num_threads self \<noteq> 0" by (simp add: run_inv_def)
  moreover have "r = sum_list (map (chunk_sum (vector self) (vsize self) (num_threads self) \<circ> int)
                       [0..<nat (num_threads self)])"
    using inv assms(2) by (rule run_inv_returned)
  ultimately show ?thesis by (simp add: sum_vector_with_threads_chunk_sums)
qed

theorem interleaving_refines_sum_vector_with_threads_witness:
  "run_reachable \<lparr>vsize = 3, num_threads = 2, vector = [1, 2, 3::int]\<rparr> (run_sched 20 \<lparr>vsize = 3, num_threads = 2, vector = [1, 2, 3::int]\<rparr> (run_init \<lparr>vsize = 3, num_threads = 2, vector = [1, 2, 3::int]\<rparr>)) \<and> pc (run_sched 20 \<lparr>vsize = 3, num_threads = 2, vector = [1, 2, 3::int]\<rparr> (run_init \<lparr>vsize = 3, num_threads = 2, vector = [1, 2, 3::int]\<rparr>)) = Returned 6 \<and> sum_vector_with_threads \<lparr>vsize = 3, num_threads = 2, vector = [1, 2, 3::int]\<rparr> = Inr 6"
proof -
  have reach: "run_reachable \<lparr>vsize = 3, num_threads = 2, vector = [1, 2, 3::int]\<rparr> (run_sched 20 \<lparr>vsize = 3, num_threads = 2, vector = [1, 2, 3::int]\<rparr> (run_init \<lparr>vsize = 3, num_threads = 2, vector = [1, 2, 3::int]\<rparr>))"
    by (intro run_reachable_run_sched run_reachable.init) simp
  have ret: "pc (run_sched 20 \<lparr>vsize = 3, num_threads = 2, vector = [1, 2, 3::int]\<rparr> (run_init \<lparr>vsize = 3, num_threads = 2, vector = [1, 2, 3::int]\<rparr>)) = Returned 6"
    by code_simp
  show ?thesis using interleaving_refines_sum_vector_with_threads [OF reach ret] reach ret by simp
qed

text \<open>
  C6. Termination: there is no infinite run; every step decreases \<open>run_measure\<close>.
\<close>

theorem run_step_wf: "wf {(t, s). run_step self s t}"
proof (rule wf_subset)
  show "wf (measure (run_measure self))" by simp
  show "{(t, s). run_step self s t} \<subseteq> measure (run_measure self)"
    by (auto dest: run_step_measure)
qed

text \<open>
  C7. Deadlock freedom: a reachable state has a next step exactly when the main thread
  has not returned, so the only states where the program stops are those where
  \<open>_sum_vector_with_threads\<close> has returned.
\<close>

theorem run_step_progress:
  assumes "run_reachable self s"
  shows "(\<exists>t. run_step self s t) \<longleftrightarrow> (\<forall>r. pc s \<noteq> Returned r)"
proof
  assume "\<exists>t. run_step self s t"
  then show "\<forall>r. pc s \<noteq> Returned r"
    using returned_no_step [OF run_reachable_inv [OF assms]] by blast
next
  assume "\<forall>r. pc s \<noteq> Returned r"
  then obtain t where "sched_step self s = Some t"
    using sched_step_progress [OF run_reachable_inv [OF assms]] by fastforce
  then show "\<exists>t. run_step self s t" by (blast intro: sched_step_sound)
qed

theorem run_step_progress_witness:
  "run_reachable \<lparr>vsize = 3, num_threads = 2, vector = [1, 2, 3::int]\<rparr> (run_init \<lparr>vsize = 3, num_threads = 2, vector = [1, 2, 3::int]\<rparr>) \<and>
   ((\<exists>t. run_step \<lparr>vsize = 3, num_threads = 2, vector = [1, 2, 3::int]\<rparr> (run_init \<lparr>vsize = 3, num_threads = 2, vector = [1, 2, 3::int]\<rparr>) t) \<longleftrightarrow> (\<forall>r. pc (run_init \<lparr>vsize = 3, num_threads = 2, vector = [1, 2, 3::int]\<rparr>) \<noteq> Returned r))"
proof -
  have reach: "run_reachable \<lparr>vsize = 3, num_threads = 2, vector = [1, 2, 3::int]\<rparr> (run_init \<lparr>vsize = 3, num_threads = 2, vector = [1, 2, 3::int]\<rparr>)"
    by (intro run_reachable.init) simp
  show ?thesis using run_step_progress [OF reach] reach by simp
qed

text \<open>
  C8. Liveness: from every reachable state some run reaches a state where the main
  thread has returned (with \<open>run_step_wf\<close>, every run does).
\<close>

theorem run_eventually_returns:
  assumes "run_reachable self s"
  shows "\<exists>t r. (run_step self)\<^sup>*\<^sup>* s t \<and> pc t = Returned r"
  using run_sched_reaches [OF assms order_refl] by blast

theorem run_eventually_returns_witness:
  "run_reachable \<lparr>vsize = 3, num_threads = 2, vector = [1, 2, 3::int]\<rparr> (run_init \<lparr>vsize = 3, num_threads = 2, vector = [1, 2, 3::int]\<rparr>) \<and>
   (\<exists>t r. (run_step \<lparr>vsize = 3, num_threads = 2, vector = [1, 2, 3::int]\<rparr>)\<^sup>*\<^sup>* (run_init \<lparr>vsize = 3, num_threads = 2, vector = [1, 2, 3::int]\<rparr>) t \<and> pc t = Returned r)"
proof -
  have reach: "run_reachable \<lparr>vsize = 3, num_threads = 2, vector = [1, 2, 3::int]\<rparr> (run_init \<lparr>vsize = 3, num_threads = 2, vector = [1, 2, 3::int]\<rparr>)"
    by (intro run_reachable.init) simp
  show ?thesis using run_eventually_returns [OF reach] reach by simp
qed

text \<open>
  C9. The barrier: when the main thread returns, exactly \<open>num_threads\<close> threads were
  started and every one of them has finished.
\<close>

theorem returned_all_joined:
  assumes "run_reachable self s" "pc s = Returned r"
  shows "length (threads s) = nat (num_threads self) \<and> (\<forall>w \<in> set (threads s). w = Finished)"
  using run_reachable_inv [OF assms(1)] assms(2)
  by (auto simp: run_inv_def in_set_conv_nth)

theorem returned_all_joined_witness:
  "run_reachable \<lparr>vsize = 3, num_threads = 2, vector = [1, 2, 3::int]\<rparr> (run_sched 20 \<lparr>vsize = 3, num_threads = 2, vector = [1, 2, 3::int]\<rparr> (run_init \<lparr>vsize = 3, num_threads = 2, vector = [1, 2, 3::int]\<rparr>)) \<and> pc (run_sched 20 \<lparr>vsize = 3, num_threads = 2, vector = [1, 2, 3::int]\<rparr> (run_init \<lparr>vsize = 3, num_threads = 2, vector = [1, 2, 3::int]\<rparr>)) = Returned 6 \<and>
   length (threads (run_sched 20 \<lparr>vsize = 3, num_threads = 2, vector = [1, 2, 3::int]\<rparr> (run_init \<lparr>vsize = 3, num_threads = 2, vector = [1, 2, 3::int]\<rparr>))) = nat 2 \<and> threads (run_sched 20 \<lparr>vsize = 3, num_threads = 2, vector = [1, 2, 3::int]\<rparr> (run_init \<lparr>vsize = 3, num_threads = 2, vector = [1, 2, 3::int]\<rparr>)) = [Finished, Finished]"
proof -
  have reach: "run_reachable \<lparr>vsize = 3, num_threads = 2, vector = [1, 2, 3::int]\<rparr> (run_sched 20 \<lparr>vsize = 3, num_threads = 2, vector = [1, 2, 3::int]\<rparr> (run_init \<lparr>vsize = 3, num_threads = 2, vector = [1, 2, 3::int]\<rparr>))"
    by (intro run_reachable_run_sched run_reachable.init) simp
  have ret: "pc (run_sched 20 \<lparr>vsize = 3, num_threads = 2, vector = [1, 2, 3::int]\<rparr> (run_init \<lparr>vsize = 3, num_threads = 2, vector = [1, 2, 3::int]\<rparr>)) = Returned 6"
    by code_simp
  have ts: "threads (run_sched 20 \<lparr>vsize = 3, num_threads = 2, vector = [1, 2, 3::int]\<rparr> (run_init \<lparr>vsize = 3, num_threads = 2, vector = [1, 2, 3::int]\<rparr>)) = [Finished, Finished]"
    by code_simp
  show ?thesis using returned_all_joined [OF reach ret] reach ret ts by simp
qed

text \<open>
  C4. The run-to-completion schedule of \<open>Reducer\<close> is one of the interleavings:
  every state it passes through after a start-loop iteration (the started threads all
  finished, the shared list as \<open>spawn_all\<close> leaves it) is reachable, and so is a return
  with the value \<open>sum_vector_with_threads\<close> computes. With C3 this makes the two models
  agree exactly: the interleavings return that value and no other.
\<close>

theorem eager_schedule_is_a_run:
  assumes "num_threads self \<noteq> 0" "m \<le> nat (num_threads self)"
  shows "run_reachable self (eager_state self m) \<and>
         (\<exists>s r. run_reachable self s \<and> pc s = Returned r \<and> sum_vector_with_threads self = Inr r)"
proof -
  let ?s = "eager_state self (nat (num_threads self))"
  have "run_reachable self (?s\<lparr>pc := Returned (py_sum (total_sum ?s))\<rparr>)"
    using eager_state_returns [OF assms(1)] eager_state_reachable [OF assms(1) order_refl]
    by (rule run_reachable_star)
  moreover have "sum_vector_with_threads self = Inr (py_sum (total_sum ?s))"
    using assms(1)
    by (simp add: sum_vector_with_threads_def py_floordiv_def eager_state_def Let_def del: py_sum_sum_list)
  ultimately show ?thesis
    using eager_state_reachable [OF assms] by fastforce
qed

theorem eager_schedule_is_a_run_witness:
  "num_threads \<lparr>vsize = 3, num_threads = 2, vector = [1, 2, 3::int]\<rparr> \<noteq> 0 \<and>
   1 \<le> nat (num_threads \<lparr>vsize = 3, num_threads = 2, vector = [1, 2, 3::int]\<rparr>) \<and>
   eager_state \<lparr>vsize = 3, num_threads = 2, vector = [1, 2, 3::int]\<rparr> 1 =
     \<lparr>total_sum = [1, 0], threads = [Finished], pc = Spawning [1]\<rparr> \<and>
   run_reachable \<lparr>vsize = 3, num_threads = 2, vector = [1, 2, 3::int]\<rparr>
     \<lparr>total_sum = [1, 0], threads = [Finished], pc = Spawning [1]\<rparr> \<and>
   (\<exists>s r. run_reachable \<lparr>vsize = 3, num_threads = 2, vector = [1, 2, 3::int]\<rparr> s \<and> pc s = Returned r \<and>
      sum_vector_with_threads \<lparr>vsize = 3, num_threads = 2, vector = [1, 2, 3::int]\<rparr> = Inr r)"
proof -
  have e: "eager_state \<lparr>vsize = 3, num_threads = 2, vector = [1, 2, 3::int]\<rparr> 1 =
             \<lparr>total_sum = [1, 0], threads = [Finished], pc = Spawning [1]\<rparr>"
    by code_simp
  show ?thesis
    using eager_schedule_is_a_run [of "\<lparr>vsize = 3, num_threads = 2, vector = [1, 2, 3::int]\<rparr>" 1] e by simp
qed

end
