(* ===== verification/Timing.thy ===== *)
theory Timing
  imports Complex_Main Reducer
begin

text \<open>
  The timed entry points \<open>measure_sequential_time\<close> and \<open>measure_parallel_time\<close> of
  \<open>VectorSum\<close> (\<open>src/main.py\<close>, lines 38--48). \<open>time.time()\<close> reads the wall
  clock; the model reads the next value of a stream of clock readings and returns the
  rest of the stream with its result, so that consecutive measurements read
  consecutive values. An exception of \<open>_sum_vector_with_threads\<close> propagates after
  the first reading.
\<close>

type_synonym clock = "real stream"

definition time_time :: "clock \<Rightarrow> real \<times> clock" where
  "time_time clk = (shd clk, stl clk)"

definition measure_sequential_time ::
  "'a::monoid_add vector_sum \<Rightarrow> clock \<Rightarrow> (real \<times> 'a) \<times> clock" where
  "measure_sequential_time self clk =
     (let (start_time, clk1) = time_time clk;
          total_sum = sum_vector self;
          (end_time, clk2) = time_time clk1
      in ((end_time - start_time, total_sum), clk2))"

definition measure_parallel_time ::
  "'a::monoid_add vector_sum \<Rightarrow> clock \<Rightarrow> (real \<times> 'a) py_result \<times> clock" where
  "measure_parallel_time self clk =
     (let (start_time, clk1) = time_time clk
      in case sum_vector_with_threads self of
           Inl e \<Rightarrow> (Inl e, clk1)
         | Inr total_sum \<Rightarrow>
             (let (end_time, clk2) = time_time clk1
              in (Inr (end_time - start_time, total_sum), clk2)))"

text \<open>A clock that never goes back, as \<open>time.monotonic()\<close> would be.\<close>

definition clock_monotone :: "clock \<Rightarrow> bool" where
  "clock_monotone clk \<longleftrightarrow> (\<forall>n. clk !! n \<le> clk !! Suc n)"

subsection \<open>Lemmas\<close>

lemma measure_parallel_time_Inr:
  "sum_vector_with_threads self = Inr r \<Longrightarrow>
   measure_parallel_time self clk = (Inr (clk !! 1 - clk !! 0, r), sdrop 2 clk)"
  by (simp add: measure_parallel_time_def time_time_def numeral_2_eq_2)

lemma measure_parallel_time_Inl:
  "sum_vector_with_threads self = Inl e \<Longrightarrow>
   measure_parallel_time self clk = (Inl e, stl clk)"
  by (simp add: measure_parallel_time_def time_time_def)

lemma measure_sequential_time_eq:
  "measure_sequential_time self clk = ((clk !! 1 - clk !! 0, sum_vector self), sdrop 2 clk)"
  by (simp add: measure_sequential_time_def time_time_def numeral_2_eq_2)

lemma clock_monotone_first: "clock_monotone clk \<Longrightarrow> clk !! 0 \<le> clk !! 1"
  unfolding clock_monotone_def by (metis One_nat_def)

lemma clock_monotone_sdrop: "clock_monotone clk \<Longrightarrow> clock_monotone (sdrop n clk)"
  by (simp add: clock_monotone_def sdrop_snth)

lemma clock_monotone_siterate:
  "clock_monotone (siterate (\<lambda>x. x + d) t) \<longleftrightarrow> 0 \<le> (d::real)"
proof -
  have "(\<lambda>x. x + d) ^^ n = (\<lambda>x. x + real n * d)" for n
    by (induction n) (auto simp: algebra_simps)
  then show ?thesis by (auto simp: clock_monotone_def algebra_simps)
qed

subsection \<open>Properties of the timed entry points\<close>

text \<open>
  C26. With a clock that never goes back and at least one thread,
  \<open>measure_parallel_time\<close> returns the sequential total and a non-negative elapsed
  time, and reads the clock exactly twice.
\<close>

theorem measure_parallel_time_nonneg:
  assumes "clock_monotone clk" "vector_sum_inv self" "1 \<le> num_threads self"
  shows "measure_parallel_time self clk = (Inr (clk !! 1 - clk !! 0, sum_vector self), sdrop 2 clk)
         \<and> 0 \<le> clk !! 1 - clk !! 0"
  using assms clock_monotone_first [OF assms(1)]
  by (simp add: sum_vector_with_threads_sum measure_parallel_time_Inr)

theorem measure_parallel_time_nonneg_witness:
  "clock_monotone (siterate (\<lambda>x. x + 1) (0::real)) \<and> vector_sum_inv \<lparr>vsize = 8, num_threads = 4, vector = [1, 2, 3, 4, 5, 6, 7, 8::int]\<rparr> \<and> 1 \<le> num_threads \<lparr>vsize = 8, num_threads = 4, vector = [1, 2, 3, 4, 5, 6, 7, 8::int]\<rparr> \<and>
   measure_parallel_time \<lparr>vsize = 8, num_threads = 4, vector = [1, 2, 3, 4, 5, 6, 7, 8::int]\<rparr> (siterate (\<lambda>x. x + 1) (0::real)) = (Inr (1, 36), sdrop 2 (siterate (\<lambda>x. x + 1) (0::real)))"
proof -
  have clk: "clock_monotone (siterate (\<lambda>x. x + 1) (0::real))" by (simp add: clock_monotone_siterate)
  have inv: "vector_sum_inv \<lparr>vsize = 8, num_threads = 4, vector = [1, 2, 3, 4, 5, 6, 7, 8::int]\<rparr>" by (simp add: vector_sum_inv_def)
  show ?thesis
    using measure_parallel_time_nonneg [OF clk inv] clk inv by (simp add: sum_vector_def)
qed

end
