(* ===== verification/Generator.thy ===== *)
theory Generator
  imports Prelude
begin

text \<open>
  \<open>_generate_random_vector\<close> (\<open>src/main.py\<close>, lines 12--13) is
  \<open>[random.randint(1, 100) for _ in range(self.size)]\<close>. This theory models the calls
  it makes into CPython's \<open>random\<close> module as CPython performs them: \<open>randint(a, b)\<close>
  is \<open>randrange(a, b + 1)\<close>, which raises \<open>ValueError\<close> on an empty range and
  otherwise adds \<open>_randbelow_with_getrandbits(width)\<close> to \<open>a\<close>; that function draws
  \<open>getrandbits(k)\<close> for \<open>k = width.bit_length()\<close> until the draw is below the
  width. \<open>getrandbits(k)\<close> (\<open>_randommodule.c\<close>) takes the high \<open>k\<close> bits of one
  32-bit Mersenne Twister output for \<open>k \<le> 32\<close>, and fills larger results with
  32-bit words from the least significant one up. The twister itself is not modelled:
  its state is the stream of outputs it will produce (\<open>rng\<close>), the module-wide state
  that every call advances. The rejection loop has no bound, so it is a
  \<open>partial_function (option)\<close>: \<open>None\<close> is a call that never returns.

  Lemmas: the loop returns the first accepted draw and runs forever exactly when no draw
  is ever accepted; \<open>getrandbits\<close> is in range and consumes whole words; every
  vector the generator returns satisfies the contract \<open>is_random_vector\<close> that the
  other theories assume; on a fair generator (one that accepts infinitely often)
  generation always returns.
\<close>

text \<open>The Mersenne Twister's state, as the outputs \<open>genrand_uint32\<close> will return.\<close>

type_synonym rng = "32 word stream"

definition genrand_uint32 :: "rng \<Rightarrow> 32 word \<times> rng" where
  "genrand_uint32 g = (shd g, stl g)"

text \<open>
  \<open>getrandbits(k)\<close> for \<open>k \<ge> 0\<close> (the only calls the code makes): \<open>0\<close> without a
  draw for \<open>k = 0\<close>, the top \<open>k\<close> bits of one output for \<open>k \<le> 32\<close>, otherwise
  one full output as the low word and \<open>getrandbits(k - 32)\<close> above it.
\<close>

fun getrandbits :: "nat \<Rightarrow> rng \<Rightarrow> int \<times> rng" where
  "getrandbits k g =
     (if k = 0 then (0, g)
      else if k \<le> 32 then
        (let (r, g1) = genrand_uint32 g in (uint (drop_bit (32 - k) r), g1))
      else
        (let (r, g1) = genrand_uint32 g;
             (hi, g2) = getrandbits (k - 32) g1
         in (uint r + 2 ^ 32 * hi, g2)))"

text \<open>\<open>int.bit_length()\<close>: the number of binary digits of \<open>|i|\<close>.\<close>

fun bit_length :: "nat \<Rightarrow> nat" where
  "bit_length n = (if n = 0 then 0 else Suc (bit_length (n div 2)))"

definition py_bit_length :: "int \<Rightarrow> nat" where
  "py_bit_length i = bit_length (nat \<bar>i\<bar>)"

text \<open>
  The loop \<open>while r >= n: r = getrandbits(k)\<close> of \<open>_randbelow_with_getrandbits\<close>,
  started from the first draw.
\<close>

partial_function (option) randbelow_loop :: "int \<Rightarrow> nat \<Rightarrow> int \<times> rng \<Rightarrow> (int \<times> rng) option" where
  "randbelow_loop n k rg =
     (if fst rg < n then Some rg else randbelow_loop n k (getrandbits k (snd rg)))"

declare randbelow_loop.simps [code]

definition randbelow :: "int \<Rightarrow> rng \<Rightarrow> (int \<times> rng) option" where
  "randbelow n g = (let k = py_bit_length n in randbelow_loop n k (getrandbits k g))"

text \<open>\<open>randrange(start, stop)\<close> with step \<open>1\<close>.\<close>

definition randrange :: "int \<Rightarrow> int \<Rightarrow> rng \<Rightarrow> (int py_result \<times> rng) option" where
  "randrange start stop g =
     (let width = stop - start
      in if 0 < width
         then (case randbelow width g of None \<Rightarrow> None | Some (r, g1) \<Rightarrow> Some (Inr (start + r), g1))
         else Some (Inl ValueError, g))"

definition randint :: "int \<Rightarrow> int \<Rightarrow> rng \<Rightarrow> (int py_result \<times> rng) option" where
  "randint a b g = randrange a (b + 1) g"

text \<open>The list comprehension of line 13, one \<open>randint(1, 100)\<close> per element of \<open>range(size)\<close>.\<close>

fun randint_list :: "'b list \<Rightarrow> rng \<Rightarrow> (int list py_result \<times> rng) option" where
  "randint_list [] g = Some (Inr [], g)"
| "randint_list (_ # rest) g =
     (case randint 1 100 g of
        None \<Rightarrow> None
      | Some (Inl e, g1) \<Rightarrow> Some (Inl e, g1)
      | Some (Inr x, g1) \<Rightarrow>
          (case randint_list rest g1 of
             None \<Rightarrow> None
           | Some (Inl e, g2) \<Rightarrow> Some (Inl e, g2)
           | Some (Inr xs, g2) \<Rightarrow> Some (Inr (x # xs), g2)))"

definition generate_random_vector :: "int \<Rightarrow> rng \<Rightarrow> (int list py_result \<times> rng) option" where
  "generate_random_vector vector_size g = randint_list (py_range vector_size) g"

text \<open>
  The contract the rest of the development relies on: a vector of \<open>max 0 size\<close>
  integers in \<open>[1, 100]\<close>.
\<close>

definition is_random_vector :: "int \<Rightarrow> int list \<Rightarrow> bool" where
  "is_random_vector vector_size v \<longleftrightarrow>
     length v = nat vector_size \<and> list_all (\<lambda>x. 1 \<le> x \<and> x \<le> 100) v"

text \<open>
  Whether the next draw for \<open>randbelow(n)\<close> is accepted, and fairness: accepted draws
  keep coming. A generator that is not fair makes \<open>randint\<close> run forever.
\<close>

definition draw_accepted :: "int \<Rightarrow> rng \<Rightarrow> bool" where
  "draw_accepted n g \<longleftrightarrow> fst (getrandbits (py_bit_length n) g) < n"

definition draws_fair :: "int \<Rightarrow> rng \<Rightarrow> bool" where
  "draws_fair n g \<longleftrightarrow> (\<forall>m. \<exists>i\<ge>m. draw_accepted n (sdrop i g))"

declare getrandbits.simps [simp del] bit_length.simps [simp del]

subsection \<open>Bits\<close>

lemma bit_length_le_iff: "bit_length m \<le> k \<longleftrightarrow> m < 2 ^ k"
proof (induction m arbitrary: k rule: bit_length.induct)
  case (1 m)
  show ?case
  proof (cases "m = 0")
    case True
    then show ?thesis by (simp add: bit_length.simps)
  next
    case False
    then have bl: "bit_length m = Suc (bit_length (m div 2))"
      by (simp add: bit_length.simps)
    show ?thesis
    proof (cases k)
      case 0
      with False bl show ?thesis by simp
    next
      case (Suc j)
      have "m div 2 < 2 ^ j \<longleftrightarrow> m < 2 ^ Suc j"
        by (simp add: div_less_iff_less_mult mult.commute)
      with 1 False bl Suc show ?thesis by simp
    qed
  qed
qed

lemma py_bit_length_one_word:
  assumes "0 < n" "n < 2 ^ 32"
  shows "0 < py_bit_length n \<and> py_bit_length n \<le> 32"
proof -
  have "0 < bit_length (nat n)"
    using bit_length_le_iff [of "nat n" 0] assms(1) by simp
  moreover have "bit_length (nat n) \<le> 32"
    using bit_length_le_iff [of "nat n" 32] assms(2) by (simp add: nat_less_iff)
  ultimately show ?thesis using assms(1) by (simp add: py_bit_length_def)
qed

lemma uint_drop_bit_less: "k \<le> 32 \<Longrightarrow> uint (drop_bit (32 - k) (w::32 word)) < 2 ^ k"
proof -
  assume k: "k \<le> 32"
  have "unat w < 2 ^ k * 2 ^ (32 - k)"
    using unsigned_less [of w] k by (simp flip: power_add)
  then have "unat w div 2 ^ (32 - k) < 2 ^ k"
    by (simp add: div_less_iff_less_mult)
  then have "unat (drop_bit (32 - k) w) < 2 ^ k"
    using unat_drop_bit_eq [of "32 - k" w] drop_bit_eq_div [of "32 - k" "unat w"] by simp
  then have "int (unat (drop_bit (32 - k) w)) < int (2 ^ k)"
    by (simp only: of_nat_less_iff)
  then show ?thesis by (simp only: uint_nat of_nat_power of_nat_numeral)
qed

lemma getrandbits_one_word:
  "0 < k \<Longrightarrow> k \<le> 32 \<Longrightarrow> getrandbits k g = (uint (drop_bit (32 - k) (shd g)), stl g)"
  by (simp add: getrandbits.simps genrand_uint32_def)

lemma getrandbits_multi_word:
  "32 < k \<Longrightarrow> getrandbits k g =
     (let (hi, g2) = getrandbits (k - 32) (stl g) in (uint (shd g) + 2 ^ 32 * hi, g2))"
  by (subst getrandbits.simps) (simp add: genrand_uint32_def)

lemma getrandbits_stl: "0 < k \<Longrightarrow> k \<le> 32 \<Longrightarrow> snd (getrandbits k g) = stl g"
  by (simp add: getrandbits_one_word)

lemma getrandbits_range: "0 \<le> fst (getrandbits k g) \<and> fst (getrandbits k g) < 2 ^ k"
proof (induction k arbitrary: g rule: less_induct)
  case (less k)
  consider "k = 0" | "0 < k" "k \<le> 32" | "32 < k" by linarith
  then show ?case
  proof cases
    case 1
    then show ?thesis by (simp add: getrandbits.simps)
  next
    case 2
    then show ?thesis using uint_drop_bit_less [of k "shd g"] by (simp add: getrandbits_one_word)
  next
    case 3
    obtain hi g2 where hi: "getrandbits (k - 32) (stl g) = (hi, g2)" by fastforce
    have ih: "0 \<le> hi" "hi + 1 \<le> 2 ^ (k - 32)"
      using less [of "k - 32" "stl g"] 3 hi by simp_all
    have "k = 32 + (k - 32)" using 3 by simp
    then have k: "(2::int) ^ k = 2 ^ 32 * 2 ^ (k - 32)"
      by (metis power_add)
    have "(2::int) ^ 32 * (hi + 1) \<le> 2 ^ 32 * 2 ^ (k - 32)"
      using ih(2) by (rule mult_left_mono) simp
    then show ?thesis
      using 3 hi ih(1) uint_lt2p [of "shd g"] k by (simp add: getrandbits_multi_word algebra_simps)
  qed
qed

subsection \<open>The rejection loop\<close>

lemma randbelow_loop_first:
  assumes one: "0 < k" "k \<le> 32"
    and "\<forall>i<j. n \<le> fst (getrandbits k (sdrop i g))" "fst (getrandbits k (sdrop j g)) < n"
  shows "randbelow_loop n k (getrandbits k g) = Some (getrandbits k (sdrop j g))"
  using assms(3,4)
proof (induction j arbitrary: g)
  case 0
  then show ?case by (subst randbelow_loop.simps) simp
next
  case (Suc j)
  have "n \<le> fst (getrandbits k g)"
    using Suc.prems(1) by (metis sdrop.simps(1) zero_less_Suc)
  moreover have "snd (getrandbits k g) = stl g"
    using one by (simp add: getrandbits_one_word)
  moreover have "\<forall>i<j. n \<le> fst (getrandbits k (sdrop i (stl g)))"
    using Suc.prems(1) by (metis Suc_mono sdrop.simps(2))
  then have "randbelow_loop n k (getrandbits k (stl g)) = Some (getrandbits k (sdrop (Suc j) g))"
    using Suc.IH [of "stl g"] Suc.prems(2) by simp
  ultimately show ?case by (subst randbelow_loop.simps) simp
qed

text \<open>A run of the loop that returns has met an accepted draw.\<close>

lemma randbelow_loop_Some_accepted:
  "randbelow_loop n k rg = Some y \<Longrightarrow> 0 < k \<and> k \<le> 32 \<and> n \<le> fst rg \<longrightarrow>
   (\<exists>i. fst (getrandbits k (sdrop i (snd rg))) < n)"
proof (induction rule: randbelow_loop.raw_induct [rotated, consumes 1])
  case (1 f n k rg y)
  show ?case
  proof
    assume a: "0 < k \<and> k \<le> 32 \<and> n \<le> fst rg"
    then have f: "f n k (getrandbits k (snd rg)) = Some y"
      using 1(2) by (simp split: if_splits)
    show "\<exists>i. fst (getrandbits k (sdrop i (snd rg))) < n"
    proof (cases "fst (getrandbits k (snd rg)) < n")
      case True
      then show ?thesis by (metis sdrop.simps(1))
    next
      case False
      then obtain i where "fst (getrandbits k (sdrop i (snd (getrandbits k (snd rg))))) < n"
        using 1(1) [OF f] a by fastforce
      then show ?thesis
        using a by (metis getrandbits_stl sdrop.simps(2))
    qed
  qed
qed

lemma randbelow_loop_diverges:
  assumes one: "0 < k" "k \<le> 32" and all: "\<forall>i. n \<le> fst (getrandbits k (sdrop i g))"
  shows "randbelow_loop n k (getrandbits k g) = None"
proof (rule ccontr)
  assume "randbelow_loop n k (getrandbits k g) \<noteq> None"
  then obtain y where y: "randbelow_loop n k (getrandbits k g) = Some y" by blast
  have "n \<le> fst (getrandbits k g)"
    using all [rule_format, of 0] by simp
  then obtain i where "fst (getrandbits k (sdrop i (stl g))) < n"
    using randbelow_loop_Some_accepted [OF y] one by (auto simp: getrandbits_stl)
  then show False
    using all [rule_format, of "Suc i"] by simp
qed

subsection \<open>\<open>randbelow\<close> and \<open>randint\<close>\<close>

lemma randbelow_first:
  assumes n: "0 < n" "n < 2 ^ 32"
    and "\<forall>i<j. \<not> draw_accepted n (sdrop i g)" "draw_accepted n (sdrop j g)"
  shows "randbelow n g = Some (fst (getrandbits (py_bit_length n) (sdrop j g)), sdrop (Suc j) g)"
proof -
  have k: "0 < py_bit_length n" "py_bit_length n \<le> 32"
    using py_bit_length_one_word [OF n] by simp_all
  have "randbelow_loop n (py_bit_length n) (getrandbits (py_bit_length n) g) =
          Some (getrandbits (py_bit_length n) (sdrop j g))"
    using assms(3,4) by (intro randbelow_loop_first [OF k]) (simp_all add: draw_accepted_def not_less)
  then show ?thesis
    using k by (simp add: randbelow_def getrandbits_one_word)
qed

lemma randbelow_None_iff:
  assumes n: "0 < n" "n < 2 ^ 32"
  shows "randbelow n g = None \<longleftrightarrow> (\<forall>i. \<not> draw_accepted n (sdrop i g))"
proof
  assume none: "randbelow n g = None"
  show "\<forall>i. \<not> draw_accepted n (sdrop i g)"
  proof (rule ccontr)
    assume "\<not> (\<forall>i. \<not> draw_accepted n (sdrop i g))"
    then have ex: "\<exists>i. draw_accepted n (sdrop i g)" by blast
    have "randbelow n g \<noteq> None"
      using randbelow_first [OF n, of "LEAST i. draw_accepted n (sdrop i g)" g]
        LeastI_ex [OF ex] not_less_Least by auto
    with none show False by simp
  qed
next
  assume "\<forall>i. \<not> draw_accepted n (sdrop i g)"
  then show "randbelow n g = None"
    using py_bit_length_one_word [OF n]
    by (simp add: randbelow_def randbelow_loop_diverges draw_accepted_def not_less)
qed

text \<open>Whenever \<open>randbelow\<close> returns, it returns the first accepted draw.\<close>

lemma randbelow_Some:
  assumes n: "0 < n" "n < 2 ^ 32" and r: "randbelow n g = Some (r, g')"
  shows "\<exists>j. (\<forall>i<j. \<not> draw_accepted n (sdrop i g)) \<and> draw_accepted n (sdrop j g) \<and>
             r = fst (getrandbits (py_bit_length n) (sdrop j g)) \<and> g' = sdrop (Suc j) g"
proof -
  have ex: "\<exists>i. draw_accepted n (sdrop i g)"
    using randbelow_None_iff [OF n, of g] r by auto
  let ?j = "LEAST i. draw_accepted n (sdrop i g)"
  have "\<forall>i<?j. \<not> draw_accepted n (sdrop i g)" "draw_accepted n (sdrop ?j g)"
    using LeastI_ex [OF ex] not_less_Least by auto
  with randbelow_first [OF n this] r show ?thesis by auto
qed

lemma randbelow_range:
  "0 < n \<Longrightarrow> n < 2 ^ 32 \<Longrightarrow> randbelow n g = Some (r, g') \<Longrightarrow> 0 \<le> r \<and> r < n"
  using randbelow_Some [of n g r g'] getrandbits_range by (fastforce simp: draw_accepted_def)

lemma randint_Inr:
  "a \<le> b \<Longrightarrow>
   randint a b g = (case randbelow (b + 1 - a) g of None \<Rightarrow> None | Some (r, g1) \<Rightarrow> Some (Inr (a + r), g1))"
  by (simp add: randint_def randrange_def)

lemma getrandbits_words: "snd (getrandbits k g) = sdrop ((k + 31) div 32) g"
proof (induction k arbitrary: g rule: less_induct)
  case (less k)
  consider "k = 0" | "0 < k" "k \<le> 32" | "32 < k" by linarith
  then show ?case
  proof cases
    case 1
    then show ?thesis by (simp add: getrandbits.simps)
  next
    case 2
    then have "(k + 31) div 32 = 1" by simp
    with 2 show ?thesis by (simp add: getrandbits_one_word)
  next
    case 3
    then have "(k + 31) div 32 = Suc ((k - 32 + 31) div 32)" by simp
    moreover obtain hi g2 where hi: "getrandbits (k - 32) (stl g) = (hi, g2)" by fastforce
    ultimately show ?thesis
      using less [of "k - 32" "stl g"] 3 by (simp add: getrandbits_multi_word)
  qed
qed

lemma py_bit_length_100 [simp]: "py_bit_length 100 = 7"
  by (simp add: py_bit_length_def bit_length.simps)

lemma draw_accepted_100: "draw_accepted 100 g \<longleftrightarrow> uint (drop_bit 25 (shd g)) < 100"
  by (simp add: draw_accepted_def getrandbits_one_word)

lemma randint_1_100_Some:
  assumes "randint 1 100 g = Some (res, g')"
  shows "\<exists>x j. res = Inr x \<and> 1 \<le> x \<and> x \<le> 100 \<and> g' = sdrop (Suc j) g"
proof -
  obtain r where r: "randbelow 100 g = Some (r, g')" and res: "res = Inr (1 + r)"
    using assms by (auto simp: randint_Inr split: option.splits)
  obtain j where "g' = sdrop (Suc j) g"
    using randbelow_Some [OF _ _ r] by auto
  then show ?thesis using randbelow_range [OF _ _ r] res by auto
qed

lemma draws_fair_sdrop: "draws_fair n g \<Longrightarrow> draws_fair n (sdrop j g)"
  unfolding draws_fair_def
proof
  fix m
  assume "\<forall>m. \<exists>i\<ge>m. draw_accepted n (sdrop i g)"
  then obtain i where "m + j \<le> i" "draw_accepted n (sdrop i g)" by blast
  then show "\<exists>i\<ge>m. draw_accepted n (sdrop i (sdrop j g))"
    by (intro exI [of _ "i - j"]) (simp add: sdrop_add)
qed

lemma randint_1_100_fair:
  assumes "draws_fair 100 g"
  shows "\<exists>x j. randint 1 100 g = Some (Inr x, sdrop (Suc j) g) \<and> 1 \<le> x \<and> x \<le> 100"
proof -
  have "\<exists>i. draw_accepted 100 (sdrop i g)"
    using assms by (auto simp: draws_fair_def)
  then obtain r g' where r: "randbelow 100 g = Some (r, g')"
    using randbelow_None_iff [of 100 g] by fastforce
  then have "randint 1 100 g = Some (Inr (1 + r), g')"
    by (simp add: randint_Inr)
  then show ?thesis using randint_1_100_Some by fastforce
qed

lemma randint_list_Some:
  "randint_list xs g = Some (res, g') \<Longrightarrow>
   \<exists>v j. res = Inr v \<and> length v = length xs \<and> list_all (\<lambda>x. 1 \<le> x \<and> x \<le> 100) v \<and> g' = sdrop j g"
proof (induction xs arbitrary: g res)
  case Nil
  then show ?case by (auto intro: exI [of _ 0])
next
  case (Cons x xs)
  then obtain res1 g1 where r1: "randint 1 100 g = Some (res1, g1)"
    by (auto split: option.splits)
  then obtain y j1 where y: "res1 = Inr y" "1 \<le> y" "y \<le> 100" "g1 = sdrop (Suc j1) g"
    using randint_1_100_Some by blast
  obtain res2 where r2: "randint_list xs g1 = Some (res2, g')" and res: "res = (case res2 of Inl e \<Rightarrow> Inl e | Inr ys \<Rightarrow> Inr (y # ys))"
    using Cons.prems r1 y(1) by (auto split: option.splits sum.splits)
  obtain ys j2 where "res2 = Inr ys" "length ys = length xs" "list_all (\<lambda>x. 1 \<le> x \<and> x \<le> 100) ys" "g' = sdrop j2 g1"
    using Cons.IH [OF r2] by blast
  then show ?case
    using res y by (intro exI [of _ "y # ys"] exI [of _ "Suc j1 + j2"]) (simp add: sdrop_add)
qed

lemma randint_list_fair:
  "draws_fair 100 g \<Longrightarrow> \<exists>v j. randint_list xs g = Some (Inr v, sdrop j g)"
proof (induction xs arbitrary: g)
  case Nil
  then show ?case by (auto intro: exI [of _ 0])
next
  case (Cons x xs)
  obtain y j1 where r1: "randint 1 100 g = Some (Inr y, sdrop (Suc j1) g)"
    using randint_1_100_fair [OF Cons.prems] by blast
  obtain ys j2 where "randint_list xs (sdrop (Suc j1) g) = Some (Inr ys, sdrop j2 (sdrop (Suc j1) g))"
    using Cons.IH [OF draws_fair_sdrop [OF Cons.prems]] by blast
  then show ?case
    using r1 by (intro exI [of _ "y # ys"] exI [of _ "Suc j1 + j2"]) (simp add: sdrop_add)
qed

lemma randint_1_100_sconst0: "randint 1 100 (sconst 0) = Some (Inr 1, sconst 0)"
  by (simp add: randint_Inr randbelow_def randbelow_loop.simps getrandbits_one_word)

lemma generate_random_vector_sconst0:
  "generate_random_vector n (sconst 0) = Some (Inr (replicate (nat n) 1), sconst 0)"
proof -
  have "randint_list xs (sconst 0) = Some (Inr (replicate (length xs) 1), sconst 0)" for xs :: "int list"
    by (induction xs) (simp_all add: randint_Inr randbelow_def randbelow_loop.simps getrandbits_one_word)
  then show ?thesis by (simp add: generate_random_vector_def)
qed

lemma draws_fair_sconst0: "draws_fair 100 (sconst 0)"
  by (auto simp: draws_fair_def draw_accepted_100)

lemma generate_random_vector_Some:
  "generate_random_vector n g = Some (res, g') \<Longrightarrow>
   \<exists>v j. res = Inr v \<and> is_random_vector n v \<and> g' = sdrop j g"
  using randint_list_Some [of "py_range n" g res g']
  by (auto simp: generate_random_vector_def is_random_vector_def)

lemma generate_random_vector_fair:
  "draws_fair 100 g \<Longrightarrow> \<exists>v j. generate_random_vector n g = Some (Inr v, sdrop j g)"
  using randint_list_fair by (simp add: generate_random_vector_def)

subsection \<open>Properties of the generator\<close>

text \<open>
  C15. \<open>random.randint(a, b)\<close> returns \<open>a\<close> plus the first draw of
  \<open>getrandbits(k)\<close> below the width \<open>b + 1 - a\<close> (\<open>k\<close> its bit length), and has then
  consumed exactly the words up to that draw. Stated for widths below \<open>2^32\<close>, where a
  draw is one Mersenne Twister word; the program's \<open>randint(1, 100)\<close> has width 100.
\<close>

theorem randint_first_accepted:
  assumes "a \<le> b" "b + 1 - a < 2 ^ 32"
    "\<forall>i<j. \<not> draw_accepted (b + 1 - a) (sdrop i g)" "draw_accepted (b + 1 - a) (sdrop j g)"
  shows "randint a b g =
           Some (Inr (a + fst (getrandbits (py_bit_length (b + 1 - a)) (sdrop j g))), sdrop (Suc j) g)"
proof -
  have "0 < b + 1 - a" using assms(1) by simp
  with assms show ?thesis by (simp add: randint_Inr randbelow_first)
qed

theorem randint_first_accepted_witness:
  "(1::int) \<le> 100 \<and> 100 + 1 - 1 < (2::int) ^ 32 \<and>
   \<not> draw_accepted 100 (0xC8000000 ## 0x12345678 ## sconst 0) \<and>
   draw_accepted 100 (0x12345678 ## sconst 0) \<and>
   randint 1 100 (0xC8000000 ## 0x12345678 ## sconst 0) = Some (Inr 10, sconst 0)"
proof -
  have a: "\<not> draw_accepted 100 (0xC8000000 ## 0x12345678 ## sconst 0)"
    "draw_accepted 100 (0x12345678 ## sconst 0)"
    by (simp_all add: draw_accepted_100)
  have "randint 1 100 (0xC8000000 ## 0x12345678 ## sconst 0) =
          Some (Inr (1 + fst (getrandbits 7 (0x12345678 ## sconst 0))), sconst 0)"
    using randint_first_accepted [of 1 100 1 "0xC8000000 ## 0x12345678 ## sconst 0"] a by simp
  then show ?thesis using a by (simp add: getrandbits_one_word)
qed

text \<open>
  C17. When the range is not empty (and narrower than \<open>2^32\<close>, one word per draw, as
  for the program's \<open>randint(1, 100)\<close>), whatever \<open>random.randint(a, b)\<close> returns lies
  in \<open>[a, b]\<close>.
\<close>

theorem randint_range:
  assumes "a \<le> b" "b + 1 - a < 2 ^ 32" "randint a b g = Some (res, g')"
  shows "\<exists>x. res = Inr x \<and> a \<le> x \<and> x \<le> b"
proof -
  have w: "0 < b + 1 - a" using assms(1) by simp
  obtain r where "randbelow (b + 1 - a) g = Some (r, g')" "res = Inr (a + r)"
    using assms(1,3) by (auto simp: randint_Inr split: option.splits)
  with randbelow_range [OF w assms(2)] show ?thesis by force
qed

theorem randint_range_witness:
  "(1::int) \<le> 100 \<and> 100 + 1 - 1 < (2::int) ^ 32 \<and>
   randint 1 100 (0x12345678 ## sconst 0) = Some (Inr 10, sconst 0) \<and> 1 \<le> (10::int) \<and> (10::int) \<le> 100"
proof -
  have r: "randint 1 100 (0x12345678 ## sconst 0) = Some (Inr 10, sconst 0)"
    by (simp add: randint_Inr randbelow_def randbelow_loop.simps getrandbits_one_word)
  show ?thesis using randint_range [OF _ _ r] r by simp
qed

text \<open>
  C16. The rejection loop of \<open>_randbelow_with_getrandbits\<close> has no bound:
  \<open>random.randint(a, b)\<close> returns exactly when the generator eventually yields an
  accepted draw, and runs forever on a generator that never does. Stated for widths
  below \<open>2^32\<close>, where a draw is one word; the program's \<open>randint(1, 100)\<close> has
  width 100.
\<close>

theorem randint_terminates_iff:
  assumes "a \<le> b" "b + 1 - a < 2 ^ 32"
  shows "randint a b g = None \<longleftrightarrow> (\<forall>i. \<not> draw_accepted (b + 1 - a) (sdrop i g))"
proof -
  have "0 < b + 1 - a" using assms(1) by simp
  with assms show ?thesis
    using randbelow_None_iff [of "b + 1 - a" g] by (auto simp: randint_Inr split: option.splits)
qed

theorem randint_terminates_iff_witness:
  "(1::int) \<le> 100 \<and> 100 + 1 - 1 < (2::int) ^ 32 \<and>
   (\<forall>i. \<not> draw_accepted 100 (sdrop i (sconst 0xFFFFFFFF))) \<and> randint 1 100 (sconst 0xFFFFFFFF) = None"
proof -
  have rej: "\<forall>i. \<not> draw_accepted 100 (sdrop i (sconst 0xFFFFFFFF))"
    by (simp add: draw_accepted_100 sdrop_siterate)
  show ?thesis using randint_terminates_iff [of 1 100 "sconst 0xFFFFFFFF"] rej by simp
qed

text \<open>
  C28. \<open>getrandbits(k)\<close> returns an integer in \<open>[0, 2^k)\<close> and consumes
  \<open>\<lceil>k / 32\<rceil>\<close> outputs of the generator.
\<close>

theorem getrandbits_bits:
  "0 \<le> fst (getrandbits k g) \<and> fst (getrandbits k g) < 2 ^ k \<and>
   snd (getrandbits k g) = sdrop ((k + 31) div 32) g"
  using getrandbits_range getrandbits_words by blast

text \<open>
  C13. Refinement of the generator's contract: whenever \<open>_generate_random_vector\<close>
  returns, it returns a list of \<open>max 0 size\<close> integers in \<open>[1, 100]\<close>, the
  vectors \<open>is_random_vector\<close> describes, and never raises.
\<close>

theorem generate_random_vector_contract:
  assumes "generate_random_vector n g = Some (res, g')"
  shows "\<exists>v. res = Inr v \<and> is_random_vector n v"
  using generate_random_vector_Some [OF assms] by blast

theorem generate_random_vector_contract_witness:
  "generate_random_vector 3 (sconst 0) = Some (Inr [1, 1, 1], sconst 0) \<and> is_random_vector 3 [1, 1, 1]"
proof -
  have g: "generate_random_vector 3 (sconst 0) = Some (Inr [1, 1, 1], sconst 0)"
    by (simp add: generate_random_vector_sconst0 numeral_3_eq_3)
  show ?thesis using generate_random_vector_contract [OF g] g by simp
qed

text \<open>
  C14. On a generator whose draws are accepted infinitely often, \<open>_generate_random_vector\<close>
  returns a vector, and leaves a generator that is again fair, so every later call returns
  too.
\<close>

theorem generate_random_vector_returns:
  assumes "draws_fair 100 g"
  shows "\<exists>v g'. generate_random_vector n g = Some (Inr v, g') \<and> draws_fair 100 g'"
  using generate_random_vector_fair [OF assms, of n] draws_fair_sdrop [OF assms] by blast

theorem generate_random_vector_returns_witness:
  "draws_fair 100 (sconst 0) \<and>
   (\<exists>v g'. generate_random_vector 5 (sconst 0) = Some (Inr v, g') \<and> draws_fair 100 g')"
  using generate_random_vector_returns [OF draws_fair_sconst0, of 5] draws_fair_sconst0 by simp

end
