(* ===== verification/Driver.thy ===== *)
theory Driver
  imports Timing Generator
begin

text \<open>
  The callers of the reducer in \<open>src/main.py\<close>: the constructor \<open>VectorSum.__init__\<close>
  (lines 7--10), \<open>ExecutionTimeGraph\<close> (lines 50--70) and \<open>main\<close> (lines 73--91).
  They thread two pieces of process-wide state: the random generator of theory
  \<open>Generator\<close>, which every \<open>VectorSum(...)\<close> advances, and the clock of theory
  \<open>Timing\<close>. A call that never returns (a draw that is never accepted) is \<open>None\<close>; a
  raised exception is \<open>Inl\<close>. \<open>int(input(...))\<close> is the pair of integers \<open>main\<close> is
  given. The plot is not drawn: \<open>generate_graph\<close> returns the series it would plot, one
  list of elapsed times per vector size. Printing is not modelled.
\<close>

text \<open>The fields \<open>__init__\<close> sets, given the vector it drew.\<close>

definition vector_sum_new :: "int \<Rightarrow> int \<Rightarrow> 'a list \<Rightarrow> 'a vector_sum" where
  "vector_sum_new vector_size n_threads v =
     \<lparr>vsize = vector_size, num_threads = n_threads, vector = v\<rparr>"

text \<open>\<open>VectorSum(size, num_threads)\<close>: the vector is drawn after the two fields are set.\<close>

definition vector_sum_init :: "int \<Rightarrow> int \<Rightarrow> rng \<Rightarrow> (int vector_sum py_result \<times> rng) option" where
  "vector_sum_init vector_size n_threads g =
     (case generate_random_vector vector_size g of
        None \<Rightarrow> None
      | Some (Inl e, g1) \<Rightarrow> Some (Inl e, g1)
      | Some (Inr v, g1) \<Rightarrow> Some (Inr (vector_sum_new vector_size n_threads v), g1))"

text \<open>
  The inner loop of \<open>generate_graph\<close> (lines 59--62): it sets \<open>num_threads\<close> on the
  same object, so the vector is kept and the last count stays set, and collects the
  elapsed times.
\<close>

fun graph_series :: "'a::monoid_add vector_sum \<Rightarrow> int list \<Rightarrow> clock \<Rightarrow> real list py_result \<times> clock" where
  "graph_series vs [] clk = (Inr [], clk)"
| "graph_series vs (n_threads # rest) clk =
     (let vs' = vs\<lparr>num_threads := n_threads\<rparr>
      in case measure_parallel_time vs' clk of
           (Inl e, clk1) \<Rightarrow> (Inl e, clk1)
         | (Inr (par_time, _), clk1) \<Rightarrow>
             (case graph_series vs' rest clk1 of
                (Inl e, clk2) \<Rightarrow> (Inl e, clk2)
              | (Inr time_list, clk2) \<Rightarrow> (Inr (par_time # time_list), clk2)))"

text \<open>The object \<open>ExecutionTimeGraph(vector_sizes, num_threads_list)\<close> (lines 50--53).\<close>

record execution_time_graph =
  vector_sizes :: "int list"
  num_threads_list :: "int list"

text \<open>
  The outer loop (lines 56--64): one series per size, each on a fresh
  \<open>VectorSum(size, 1)\<close> that draws its own vector.
\<close>

fun graph_rows ::
  "int list \<Rightarrow> int list \<Rightarrow> rng \<Rightarrow> clock \<Rightarrow> ((int \<times> real list) list py_result \<times> rng \<times> clock) option" where
  "graph_rows [] nts g clk = Some (Inr [], g, clk)"
| "graph_rows (vector_size # rest) nts g clk =
     (case vector_sum_init vector_size 1 g of
        None \<Rightarrow> None
      | Some (Inl e, g1) \<Rightarrow> Some (Inl e, g1, clk)
      | Some (Inr vs, g1) \<Rightarrow>
          (case graph_series vs nts clk of
             (Inl e, clk1) \<Rightarrow> Some (Inl e, g1, clk1)
           | (Inr time_list, clk1) \<Rightarrow>
               (case graph_rows rest nts g1 clk1 of
                  None \<Rightarrow> None
                | Some (Inl e, g2, clk2) \<Rightarrow> Some (Inl e, g2, clk2)
                | Some (Inr rows, g2, clk2) \<Rightarrow> Some (Inr ((vector_size, time_list) # rows), g2, clk2))))"

definition generate_graph ::
  "execution_time_graph \<Rightarrow> rng \<Rightarrow> clock \<Rightarrow> ((int \<times> real list) list py_result \<times> rng \<times> clock) option" where
  "generate_graph self g clk = graph_rows (vector_sizes self) (num_threads_list self) g clk"

definition main_vector_sizes :: "int list" where
  "main_vector_sizes = [10 ^ 4, 10 ^ 5, 10 ^ 6]"

definition main_num_threads_list :: "int list" where
  "main_num_threads_list = [1, 2, 4, 8, 16, 32]"

record main_report =
  seq_time :: real
  seq_sum :: int
  par_time :: real
  par_sum :: int

text \<open>
  \<open>main\<close>: the object of line 77, the sequential and the parallel measurement on it,
  the assertion of line 85, then the graph over the three sizes of line 88.
\<close>

definition main :: "int \<Rightarrow> int \<Rightarrow> rng \<Rightarrow> clock \<Rightarrow> (main_report \<times> (int \<times> real list) list) py_result option" where
  "main vector_size n_threads g clk =
     (case vector_sum_init vector_size n_threads g of
        None \<Rightarrow> None
      | Some (Inl e, _) \<Rightarrow> Some (Inl e)
      | Some (Inr vs, g1) \<Rightarrow>
          (let ((s_time, s_sum), clk1) = measure_sequential_time vs clk
           in case measure_parallel_time vs clk1 of
                (Inl e, _) \<Rightarrow> Some (Inl e)
              | (Inr (p_time, p_sum), clk2) \<Rightarrow>
                  (if s_sum \<noteq> p_sum then Some (Inl AssertionError)
                   else case generate_graph
                               \<lparr>vector_sizes = main_vector_sizes, num_threads_list = main_num_threads_list\<rparr>
                               g1 clk2 of
                          None \<Rightarrow> None
                        | Some (Inl e, _) \<Rightarrow> Some (Inl e)
                        | Some (Inr rows, _) \<Rightarrow>
                            Some (Inr (\<lparr>seq_time = s_time, seq_sum = s_sum, par_time = p_time,
                                        par_sum = p_sum\<rparr>, rows)))))"

subsection \<open>The constructor\<close>

lemma random_vector_inv: "is_random_vector n v \<Longrightarrow> vector_sum_inv (vector_sum_new n k v)"
  by (simp add: is_random_vector_def vector_sum_inv_def vector_sum_new_def)

lemma vector_sum_init_Some:
  "vector_sum_init n k g = Some (res, g') \<Longrightarrow>
   \<exists>v j. res = Inr (vector_sum_new n k v) \<and> is_random_vector n v \<and> g' = sdrop j g"
  using generate_random_vector_Some [of n g]
  by (auto simp: vector_sum_init_def split: option.splits sum.splits) blast

lemma vector_sum_init_fair:
  assumes "draws_fair 100 g"
  shows "\<exists>v j. vector_sum_init n k g = Some (Inr (vector_sum_new n k v), sdrop j g) \<and> is_random_vector n v"
proof -
  obtain v j where gen: "generate_random_vector n g = Some (Inr v, sdrop j g)"
    using generate_random_vector_fair [OF assms] by blast
  then have "is_random_vector n v"
    using generate_random_vector_Some [OF gen] by auto
  with gen show ?thesis by (auto simp: vector_sum_init_def)
qed

lemma vector_sum_init_sconst0:
  "vector_sum_init n k (sconst 0) = Some (Inr (vector_sum_new n k (replicate (nat n) 1)), sconst 0)"
  by (simp add: vector_sum_init_def generate_random_vector_sconst0)

subsection \<open>The graph loops\<close>

lemma vector_sum_inv_num_threads [simp]:
  "vector_sum_inv (vs\<lparr>num_threads := k\<rparr>) = vector_sum_inv vs"
  by (simp add: vector_sum_inv_def)

lemma graph_series_ok:
  "list_all (\<lambda>k. 1 \<le> k) nts \<Longrightarrow> vector_sum_inv vs \<Longrightarrow>
   \<exists>time_list. graph_series vs nts clk = (Inr time_list, sdrop (2 * length nts) clk)
     \<and> length time_list = length nts \<and> (clock_monotone clk \<longrightarrow> list_all (\<lambda>t. 0 \<le> t) time_list)"
proof (induction nts arbitrary: vs clk)
  case Nil
  then show ?case by simp
next
  case (Cons k nts)
  let ?vs = "vs\<lparr>num_threads := k\<rparr>"
  have m: "measure_parallel_time ?vs clk = (Inr (clk !! 1 - clk !! 0, sum_vector ?vs), sdrop 2 clk)"
    using Cons.prems by (simp add: sum_vector_with_threads_sum measure_parallel_time_Inr)
  have "list_all (\<lambda>k. 1 \<le> k) nts" "vector_sum_inv ?vs"
    using Cons.prems by simp_all
  from Cons.IH [OF this, of "sdrop 2 clk"] obtain time_list where
    ih: "graph_series ?vs nts (sdrop 2 clk) = (Inr time_list, sdrop (2 * length nts) (sdrop 2 clk))"
    and len: "length time_list = length nts"
    and mono: "clock_monotone (sdrop 2 clk) \<longrightarrow> list_all (\<lambda>t. 0 \<le> t) time_list"
    by blast
  show ?case
    using m ih len mono clock_monotone_first [of clk] clock_monotone_sdrop [of clk 2]
    by (simp add: sdrop_add)
qed

text \<open>A thread count \<open>0\<close> in the list stops the series with \<open>ZeroDivisionError\<close>.\<close>

lemma graph_series_zero:
  "0 \<in> set nts \<Longrightarrow> \<exists>clk'. graph_series vs nts clk = (Inl ZeroDivisionError, clk')"
proof (induction nts arbitrary: vs clk)
  case Nil
  then show ?case by simp
next
  case (Cons k nts)
  show ?case
  proof (cases "k = 0")
    case True
    then show ?thesis
      by (simp add: sum_vector_with_threads_zero measure_parallel_time_Inl)
  next
    case False
    with Cons.prems have "0 \<in> set nts" by simp
    then obtain clk' where
      "graph_series (vs\<lparr>num_threads := k\<rparr>) nts (sdrop 2 clk) = (Inl ZeroDivisionError, clk')"
      using Cons.IH by blast
    with False show ?thesis
      by (simp add: sum_vector_with_threads_chunk_sums measure_parallel_time_Inr)
  qed
qed

lemma graph_rows_ok:
  "list_all (\<lambda>k. 1 \<le> k) nts \<Longrightarrow> draws_fair 100 g \<Longrightarrow>
   \<exists>rows j. graph_rows sizes nts g clk = Some (Inr rows, sdrop j g, sdrop (2 * length nts * length sizes) clk)
     \<and> map fst rows = sizes
     \<and> list_all (\<lambda>(n, ts). length ts = length nts \<and> (clock_monotone clk \<longrightarrow> list_all (\<lambda>t. 0 \<le> t) ts)) rows"
proof (induction sizes arbitrary: g clk)
  case Nil
  then show ?case by (auto intro: exI [of _ 0])
next
  case (Cons n sizes)
  obtain v j1 where init: "vector_sum_init n 1 g = Some (Inr (vector_sum_new n 1 v), sdrop j1 g)"
    and rv: "is_random_vector n v"
    using vector_sum_init_fair [OF Cons.prems(2)] by blast
  obtain ts where
    gs: "graph_series (vector_sum_new n 1 v) nts clk = (Inr ts, sdrop (2 * length nts) clk)"
    and len: "length ts = length nts"
    and mono: "clock_monotone clk \<longrightarrow> list_all (\<lambda>t. 0 \<le> t) ts"
    using graph_series_ok [OF Cons.prems(1) random_vector_inv [OF rv]] by blast
  from Cons.IH [OF Cons.prems(1) draws_fair_sdrop [OF Cons.prems(2)], of j1 "sdrop (2 * length nts) clk"]
  obtain rows j2 where
    rest: "graph_rows sizes nts (sdrop j1 g) (sdrop (2 * length nts) clk) =
             Some (Inr rows, sdrop j2 (sdrop j1 g), sdrop (2 * length nts * length sizes) (sdrop (2 * length nts) clk))"
    and fst_rows: "map fst rows = sizes"
    and rows_ok: "list_all (\<lambda>(n, ts). length ts = length nts \<and>
                    (clock_monotone (sdrop (2 * length nts) clk) \<longrightarrow> list_all (\<lambda>t. 0 \<le> t) ts)) rows"
    by blast
  have "list_all (\<lambda>(n, ts). length ts = length nts \<and>
          (clock_monotone clk \<longrightarrow> list_all (\<lambda>t. 0 \<le> t) ts)) rows"
    using rows_ok clock_monotone_sdrop [of clk] by (auto simp: list_all_iff)
  then show ?case
    using init gs len mono rest fst_rows
    by (intro exI [of _ "(n, ts) # rows"] exI [of _ "j1 + j2"]) (simp add: sdrop_add algebra_simps)
qed

lemma graph_rows_zero:
  assumes "0 \<in> set nts" "sizes \<noteq> []" "draws_fair 100 g"
  shows "\<exists>g' clk'. graph_rows sizes nts g clk = Some (Inl ZeroDivisionError, g', clk')"
proof -
  obtain n rest where sizes: "sizes = n # rest" using assms(2) by (cases sizes) auto
  obtain v j where init: "vector_sum_init n 1 g = Some (Inr (vector_sum_new n 1 v), sdrop j g)"
    using vector_sum_init_fair [OF assms(3)] by blast
  obtain clk' where "graph_series (vector_sum_new n 1 v) nts clk = (Inl ZeroDivisionError, clk')"
    using graph_series_zero [OF assms(1)] by blast
  with init sizes show ?thesis by simp
qed

subsection \<open>\<open>main\<close>\<close>

lemma random_vector_sum_bounds:
  "list_all (\<lambda>x. 1 \<le> x \<and> x \<le> (100::int)) v \<Longrightarrow>
   int (length v) \<le> sum_list v \<and> sum_list v \<le> 100 * int (length v)"
  by (induction v) auto

lemma random_vector_sum_max:
  assumes "is_random_vector n v"
  shows "max 0 n \<le> sum_list v \<and> sum_list v \<le> 100 * max 0 n"
proof (cases "0 \<le> n")
  case True
  then have "int (length v) = n" using assms by (simp add: is_random_vector_def)
  with True show ?thesis
    using assms random_vector_sum_bounds [of v] by (simp add: is_random_vector_def)
next
  case False
  then have "v = []" using assms by (simp add: is_random_vector_def)
  with False show ?thesis by simp
qed

lemma main_graph_lists: "list_all (\<lambda>k. 1 \<le> k) main_num_threads_list"
  by (simp add: main_num_threads_list_def)

text \<open>\<open>main\<close> once the object is built: the two clock readings of each measurement.\<close>

lemma main_init:
  assumes "vector_sum_init vector_size n_threads g = Some (Inr vs, g1)"
  shows "main vector_size n_threads g clk =
     (case sum_vector_with_threads vs of
        Inl e \<Rightarrow> Some (Inl e)
      | Inr p_sum \<Rightarrow>
          (if sum_vector vs \<noteq> p_sum then Some (Inl AssertionError)
           else case graph_rows main_vector_sizes main_num_threads_list g1 (sdrop 4 clk) of
                  None \<Rightarrow> None
                | Some (Inl e, _) \<Rightarrow> Some (Inl e)
                | Some (Inr rows, _) \<Rightarrow>
                    Some (Inr (\<lparr>seq_time = clk !! 1 - clk !! 0, seq_sum = sum_vector vs,
                          par_time = sdrop 2 clk !! 1 - sdrop 2 clk !! 0, par_sum = p_sum\<rparr>, rows))))"
proof (cases "sum_vector_with_threads vs")
  case (Inl e)
  with assms show ?thesis
    by (simp add: main_def measure_sequential_time_eq measure_parallel_time_Inl)
next
  case (Inr p)
  show ?thesis
  proof (cases "graph_rows main_vector_sizes main_num_threads_list g1 (sdrop 4 clk)")
    case None
    with assms Inr show ?thesis
      by (simp add: main_def generate_graph_def measure_sequential_time_eq measure_parallel_time_Inr)
  next
    case (Some r)
    with assms Inr show ?thesis
      by (cases r) (auto simp: main_def generate_graph_def measure_sequential_time_eq
                       measure_parallel_time_Inr split: sum.splits)
  qed
qed

lemma main_no_vector: "generate_random_vector vector_size g = None \<Longrightarrow> main vector_size n_threads g clk = None"
  by (simp add: main_def vector_sum_init_def)

lemma vector_sum_init_gen:
  "generate_random_vector n g = Some (res, g1) \<Longrightarrow>
   \<exists>v. is_random_vector n v \<and> res = Inr v \<and> vector_sum_init n k g = Some (Inr (vector_sum_new n k v), g1)"
  using generate_random_vector_Some [of n g res g1] by (auto simp: vector_sum_init_def)

subsection \<open>Properties of the drivers\<close>

text \<open>
  C18. The constructor establishes the object's invariant: every \<open>VectorSum(size, k)\<close>
  that \<open>__init__\<close> returns holds the two fields it was given and a vector of
  \<open>max 0 size\<close> elements.
\<close>

theorem vector_sum_init_type:
  assumes "vector_sum_init n k g = Some (Inr vs, g')"
  shows "vector_sum_inv vs \<and> vsize vs = n \<and> num_threads vs = k"
  using vector_sum_init_Some [OF assms] random_vector_inv by (auto simp: vector_sum_new_def)

theorem vector_sum_init_type_witness:
  "vector_sum_init 3 2 (sconst 0) = Some (Inr (vector_sum_new 3 2 [1, 1, 1]), sconst 0) \<and>
   vector_sum_inv (vector_sum_new 3 2 [1, 1, 1::int]) \<and> vsize (vector_sum_new 3 2 [1, 1, 1::int]) = 3 \<and>
   num_threads (vector_sum_new 3 2 [1, 1, 1::int]) = 2"
proof -
  have i: "vector_sum_init 3 2 (sconst 0) = Some (Inr (vector_sum_new 3 2 [1, 1, 1]), sconst 0)"
    by (simp add: vector_sum_init_sconst0 numeral_3_eq_3)
  show ?thesis using vector_sum_init_type [OF i] i by simp
qed

text \<open>
  C24. For thread counts that are all at least one and a fair generator,
  \<open>generate_graph\<close> raises nothing, returns, and yields one series per size, in order,
  each with one elapsed time per thread count; with a monotone clock every time is
  non-negative.
\<close>

theorem generate_graph_series:
  assumes "list_all (\<lambda>k. 1 \<le> k) (num_threads_list self)" "draws_fair 100 g" "clock_monotone clk"
  shows "\<exists>rows g' clk'. generate_graph self g clk = Some (Inr rows, g', clk')
           \<and> map fst rows = vector_sizes self
           \<and> list_all (\<lambda>(n, ts). length ts = length (num_threads_list self) \<and> list_all (\<lambda>t. 0 \<le> t) ts) rows"
  using graph_rows_ok [OF assms(1,2), of "vector_sizes self" clk] assms(3)
  by (fastforce simp: generate_graph_def list_all_iff)

theorem generate_graph_series_witness:
  "list_all (\<lambda>k. 1 \<le> k) (num_threads_list \<lparr>vector_sizes = [2, 3], num_threads_list = [1, 2]\<rparr>) \<and>
   draws_fair 100 (sconst 0) \<and> clock_monotone (siterate (\<lambda>x. x + 1) 0) \<and>
   (\<exists>rows g' clk'. generate_graph \<lparr>vector_sizes = [2, 3], num_threads_list = [1, 2]\<rparr> (sconst 0)
                      (siterate (\<lambda>x. x + 1) 0) = Some (Inr rows, g', clk')
      \<and> map fst rows = [2, 3]
      \<and> list_all (\<lambda>(n, ts). length ts = 2 \<and> list_all (\<lambda>t. 0 \<le> t) ts) rows)"
proof -
  have clk: "clock_monotone (siterate (\<lambda>x. x + 1) (0::real))"
    by (simp add: clock_monotone_siterate)
  have a: "list_all (\<lambda>k. 1 \<le> k) (num_threads_list \<lparr>vector_sizes = [2, 3], num_threads_list = [1, 2::int]\<rparr>)"
    by simp
  show ?thesis using generate_graph_series [OF a draws_fair_sconst0 clk] a clk draws_fair_sconst0
    by (simp add: numeral_2_eq_2)
qed

text \<open>
  C25. A thread count \<open>0\<close> in the benchmark's list makes \<open>generate_graph\<close> raise
  \<open>ZeroDivisionError\<close> in the first series (given a size to plot and a fair generator).
\<close>

theorem generate_graph_zero_threads:
  assumes "0 \<in> set (num_threads_list self)" "vector_sizes self \<noteq> []" "draws_fair 100 g"
  shows "\<exists>g' clk'. generate_graph self g clk = Some (Inl ZeroDivisionError, g', clk')"
  using graph_rows_zero [OF assms] by (simp add: generate_graph_def)

theorem generate_graph_zero_threads_witness:
  "0 \<in> set (num_threads_list \<lparr>vector_sizes = [4], num_threads_list = [2, 0]\<rparr>) \<and>
   vector_sizes \<lparr>vector_sizes = [4], num_threads_list = [2, 0]\<rparr> \<noteq> [] \<and> draws_fair 100 (sconst 0) \<and>
   (\<exists>g' clk'. generate_graph \<lparr>vector_sizes = [4], num_threads_list = [2, 0]\<rparr> (sconst 0) (sconst 0)
                = Some (Inl ZeroDivisionError, g', clk'))"
  using generate_graph_zero_threads [of "\<lparr>vector_sizes = [4], num_threads_list = [2, 0]\<rparr>" "sconst 0" "sconst 0"]
    draws_fair_sconst0 by simp

text \<open>
  C10. \<open>main\<close> with at least one thread and a fair generator returns and passes its
  assertion: both sums equal the sum of the vector \<open>VectorSum\<close> drew, and the graph has
  three series, one per size of \<open>main_vector_sizes\<close>.
\<close>

theorem main_assertion_holds:
  assumes "1 \<le> n_threads" "draws_fair 100 g"
  shows "\<exists>v g1 rep rows. generate_random_vector vector_size g = Some (Inr v, g1)
           \<and> main vector_size n_threads g clk = Some (Inr (rep, rows))
           \<and> seq_sum rep = py_sum v \<and> par_sum rep = py_sum v \<and> map fst rows = main_vector_sizes"
proof -
  obtain v j where gen: "generate_random_vector vector_size g = Some (Inr v, sdrop j g)"
    using generate_random_vector_fair [OF assms(2)] by blast
  obtain init: "vector_sum_init vector_size n_threads g = Some (Inr (vector_sum_new vector_size n_threads v), sdrop j g)"
    and rv: "is_random_vector vector_size v"
    using vector_sum_init_gen [OF gen] by blast
  have par: "sum_vector_with_threads (vector_sum_new vector_size n_threads v) = Inr (py_sum v)"
    using assms(1) random_vector_inv [OF rv]
    by (simp add: sum_vector_with_threads_sum sum_vector_def vector_sum_new_def)
  obtain rows j2 where
    g: "graph_rows main_vector_sizes main_num_threads_list (sdrop j g) (sdrop 4 clk) =
          Some (Inr rows, sdrop j2 (sdrop j g),
                sdrop (2 * length main_num_threads_list * length main_vector_sizes) (sdrop 4 clk))"
    and f: "map fst rows = main_vector_sizes"
    using graph_rows_ok [OF main_graph_lists draws_fair_sdrop [OF assms(2)]] by blast
  show ?thesis
    using main_init [OF init, of clk] par g f gen by (simp add: sum_vector_def vector_sum_new_def)
qed

theorem main_assertion_holds_witness:
  "1 \<le> (2::int) \<and> draws_fair 100 (sconst 0) \<and>
   (\<exists>v g1 rep rows. generate_random_vector 3 (sconst 0) = Some (Inr v, g1)
      \<and> main 3 2 (sconst 0) (siterate (\<lambda>x. x + 1) 0) = Some (Inr (rep, rows))
      \<and> seq_sum rep = py_sum v \<and> par_sum rep = py_sum v \<and> map fst rows = main_vector_sizes)"
  using main_assertion_holds [OF _ draws_fair_sconst0, of 2 3 "siterate (\<lambda>x. x + 1) 0"] draws_fair_sconst0
  by simp

text \<open>
  C22. A negative thread count reaches the assertion with the wrong total: the parallel
  path returns \<open>0\<close> while the generator's elements are at least \<open>1\<close>, so for every
  positive size \<open>main\<close> fails with \<open>AssertionError\<close> as soon as the vector is drawn.
\<close>

theorem main_negative_threads_assertion_error:
  assumes "n_threads < 0" "0 < vector_size"
  shows "main vector_size n_threads g clk =
           map_option (\<lambda>_. Inl AssertionError) (generate_random_vector vector_size g)"
proof (cases "generate_random_vector vector_size g")
  case None
  then show ?thesis by (simp add: main_no_vector)
next
  case (Some r)
  then obtain res g1 where gen: "generate_random_vector vector_size g = Some (res, g1)"
    by (cases r) auto
  then obtain v where rv: "is_random_vector vector_size v"
    and init: "vector_sum_init vector_size n_threads g = Some (Inr (vector_sum_new vector_size n_threads v), g1)"
    using vector_sum_init_gen by blast
  have "sum_vector_with_threads (vector_sum_new vector_size n_threads v) = Inr 0"
    using assms(1) by (simp add: sum_vector_with_threads_chunk_sums vector_sum_new_def)
  moreover have "0 < py_sum v"
    using assms(2) rv random_vector_sum_bounds [of v] by (simp add: is_random_vector_def)
  ultimately show ?thesis
    using main_init [OF init, of clk] gen by (simp add: sum_vector_def vector_sum_new_def)
qed

theorem main_negative_threads_assertion_error_witness:
  "(-1::int) < 0 \<and> (0::int) < 3 \<and> generate_random_vector 3 (sconst 0) = Some (Inr [1, 1, 1], sconst 0) \<and>
   main 3 (-1) (sconst 0) (siterate (\<lambda>x. x + 1) 0) = Some (Inl AssertionError)"
proof -
  have gen: "generate_random_vector 3 (sconst 0) = Some (Inr [1, 1, 1], sconst 0)"
    by (simp add: generate_random_vector_sconst0 numeral_3_eq_3)
  show ?thesis
    using main_negative_threads_assertion_error [of "-1" 3 "sconst 0" "siterate (\<lambda>x. x + 1) 0"] gen by simp
qed

text \<open>
  C23. With zero threads \<open>main\<close> stops with \<open>ZeroDivisionError\<close> in the parallel
  measurement as soon as the vector is drawn.
\<close>

theorem main_zero_threads:
  "main vector_size 0 g clk = map_option (\<lambda>_. Inl ZeroDivisionError) (generate_random_vector vector_size g)"
proof (cases "generate_random_vector vector_size g")
  case None
  then show ?thesis by (simp add: main_no_vector)
next
  case (Some r)
  then obtain res g1 where gen: "generate_random_vector vector_size g = Some (res, g1)"
    by (cases r) auto
  then obtain v where "vector_sum_init vector_size 0 g = Some (Inr (vector_sum_new vector_size 0 v), g1)"
    using vector_sum_init_gen by blast
  then show ?thesis
    using main_init [of vector_size 0 g _ g1 clk] gen
    by (simp add: sum_vector_with_threads_zero vector_sum_new_def)
qed

text \<open>
  C27. Bounds of the generated data: a vector \<open>_generate_random_vector\<close> returns for
  size \<open>n\<close> sums to between \<open>n\<close> and \<open>100 n\<close> (0 for a negative size).
\<close>

theorem random_vector_sum_range:
  assumes "generate_random_vector n g = Some (Inr v, g')"
  shows "max 0 n \<le> py_sum v \<and> py_sum v \<le> 100 * max 0 n"
  using generate_random_vector_Some [OF assms] random_vector_sum_max by auto

theorem random_vector_sum_range_witness:
  "generate_random_vector 3 (sconst 0) = Some (Inr [1, 1, 1], sconst 0) \<and>
   max 0 3 \<le> py_sum [1, 1, 1::int] \<and> py_sum [1, 1, 1::int] \<le> 100 * max 0 3"
proof -
  have gen: "generate_random_vector 3 (sconst 0) = Some (Inr [1, 1, 1], sconst 0)"
    by (simp add: generate_random_vector_sconst0 numeral_3_eq_3)
  show ?thesis using random_vector_sum_range [OF gen] gen by simp
qed

end
