(* ===== verification/Spec2Isabelle.thy ===== *)
theory Spec2Isabelle
  imports Threads Driver
begin

text \<open>
  \<^bold>\<open>A verification of \<open>src/main.py\<close>: a threaded vector sum and its benchmark.\<close>

  \<^bold>\<open>The program.\<close> Class \<open>VectorSum\<close> holds a size, a thread count and a vector of
  random integers in \<open>[1, 100]\<close>. \<open>_sum_vector\<close> sums it with \<open>sum\<close>;
  \<open>_sum_vector_with_threads\<close> cuts it into \<open>num_threads\<close> contiguous chunks of
  \<open>size // num_threads\<close> elements, the last one taking the remainder, starts one
  \<open>threading.Thread\<close> per chunk that writes the chunk's sum into its own slot of the
  shared list \<open>total_sum\<close>, joins every thread and sums the slots. The two
  \<open>measure_*_time\<close> methods wrap them between two \<open>time.time()\<close> calls.
  \<open>ExecutionTimeGraph.generate_graph\<close> times the threaded sum for several thread
  counts per vector size; \<open>main\<close> reads a size and a thread count, runs both sums,
  asserts that they agree and draws the graph.

  \<^bold>\<open>Theories, in dependency order.\<close>
  \<^item> \<open>Prelude\<close>: the Python built-ins the code calls, with CPython's semantics:
    \<open>py_sum\<close> (\<open>sum\<close>, a left fold from \<open>0\<close>), \<open>py_range\<close>, \<open>py_list_mul\<close>
    (\<open>[0] * k\<close>), \<open>py_floordiv\<close> (\<open>//\<close>, raising \<open>ZeroDivisionError\<close>),
    \<open>py_slice\<close> (slicing with negative and clamped bounds) and \<open>py_setitem\<close>
    (index assignment, raising \<open>IndexError\<close>). Exceptions are the constructors of
    \<open>py_error\<close>; a fallible operation returns \<open>py_error + 'a\<close>. The shared list
    and slice lemmas live here.
  \<^item> \<open>Partition\<close>: lines 25--28, the chunk boundaries (\<open>chunk_start\<close>,
    \<open>chunk_end\<close>, and \<open>chunks\<close>, the list of \<open>(start, end)\<close> pairs the loop
    hands out), and the partitioner's contract \<open>contiguous_cover\<close> from the
    specification. Lemmas: the chunks tile \<open>[0, size)\<close> (a refinement of the
    contract), the remainder goes to the last chunk, and slicing the vector at the
    chunk bounds and concatenating gives it back.
  \<^item> \<open>Reducer\<close>: lines 6--36. The object is the record \<open>vector_sum\<close>
    (\<open>vsize\<close>, \<open>num_threads\<close>, \<open>vector\<close>), polymorphic in the element type over
    \<open>monoid_add\<close>; \<open>vector_sum_inv\<close> is what the constructor establishes.
    \<open>sum_vector\<close> is \<open>_sum_vector\<close>, \<open>partial_sum\<close> the worker,
    \<open>thread_outcome\<close> what a thread leaves in the list (an exception in a thread is
    swallowed by \<open>threading\<close>), and \<open>sum_vector_with_threads\<close> the method under the
    schedule in which every thread runs to its end as soon as it is started
    (\<open>spawn_all\<close>). Lemmas: equivalence with \<open>_sum_vector\<close> for at least one
    thread; the method raises exactly for zero threads; a negative count returns 0.
  \<^item> \<open>Threads\<close>: the same method under every interleaving. \<open>run_state\<close> holds
    \<open>total_sum\<close>, the started threads (\<open>worker\<close>: started, summing with the
    elements left and the running total, finished) and the main thread's position
    (\<open>main_pc\<close>: in the start loop with the iterations left, in the join loop,
    returned). \<open>run_step\<close> is an inductive relation: the main thread's next step
    (\<open>main_move\<close>; \<open>join\<close> has no step until its thread has finished) or the next
    step of any one worker (\<open>thread_move\<close>). A worker's \<open>sum\<close> is split into one step
    per element, finer than the interpreter's lock, so every real schedule is a run.
    \<open>run_inv\<close> relates every thread to its chunk and slot; it holds in every
    reachable state (rule induction, one preservation lemma per kind of step). On it
    rest: every interleaving returns \<open>_sum_vector\<close>'s total and refines the
    run-to-completion model, and conversely every state of the run-to-completion
    schedule (\<open>eager_state\<close>: the first \<open>m\<close> threads started and finished, the list as
    \<open>spawn_all\<close> leaves it) is reachable, so the two models return the same value; no
    run is infinite (\<open>run_measure\<close> decreases at every
    step); a reachable state is stuck exactly when the main thread has returned; from
    every reachable state the return is reachable; on return all threads are started
    and finished. \<open>sched_step\<close>/\<open>run_sched\<close> is an executable schedule (the main
    thread runs, and while it waits the joined thread runs) with an enough-fuel
    lemma: fuel \<open>run_measure\<close> of the start state suffices, since each step spends at
    least one unit of the measure; the witnesses evaluate it by \<open>code_simp\<close>.
  \<^item> \<open>Timing\<close>: lines 38--48. \<open>time.time()\<close> reads the next value of a stream of
    clock readings (\<open>clock\<close>), which the measurements thread through as state.
    Lemmas: \<open>measure_parallel_time\<close> returns the sequential total with the
    difference of its two clock readings, non-negative when the clock is monotone.
  \<^item> \<open>Generator\<close>: lines 12--13, \<open>_generate_random_vector\<close>, with
    \<open>random.randint\<close> as CPython computes it: \<open>randint\<close> is \<open>randrange\<close>
    (\<open>ValueError\<close> on an empty range), which adds to \<open>a\<close> the result of the rejection
    loop \<open>randbelow_loop\<close> of \<open>_randbelow_with_getrandbits\<close> over \<open>getrandbits\<close>,
    which takes the high bits of 32-bit Mersenne Twister outputs. The twister's state is
    the stream of its future outputs (\<open>rng\<close>). The loop has no bound, so it is a
    \<open>partial_function (option)\<close>, \<open>None\<close> being a call that never returns. Lemmas,
    for ranges narrower than \<open>2^32\<close> (one word per draw, which covers the program's
    \<open>randint(1, 100)\<close>): the loop returns the first accepted draw, and runs forever exactly when no draw is ever
    accepted (proved with the loop's fixpoint induction); \<open>getrandbits(k)\<close> lies in
    \<open>[0, 2^k)\<close> and consumes whole words; \<open>randint\<close> stays in its range; every vector
    the generator returns meets the contract \<open>is_random_vector\<close> (a list of
    \<open>max 0 size\<close> integers in \<open>[1, 100]\<close>); on a fair stream (accepted draws keep
    coming, \<open>draws_fair\<close>) generation returns and leaves a fair stream.
  \<^item> \<open>Driver\<close>: lines 7--10 and 50--91. \<open>vector_sum_init\<close> is \<open>VectorSum.__init__\<close>
    (the fields, then the drawn vector); \<open>execution_time_graph\<close>, \<open>graph_series\<close>,
    \<open>graph_rows\<close> and \<open>generate_graph\<close> are \<open>ExecutionTimeGraph\<close> and the two loops
    of \<open>generate_graph\<close> (returning the series instead of plotting); \<open>main\<close> builds
    the object, runs both measurements, the assertion and the graph. Generator and clock
    are both threaded through as state, in the order the code uses them. Lemmas: the
    constructor establishes \<open>vector_sum_inv\<close>; \<open>main\<close> on a fair generator returns and
    passes its assertion for at least one thread, and stops with \<open>AssertionError\<close> for
    a negative count and \<open>ZeroDivisionError\<close> for zero as soon as its vector is drawn;
    the graph yields one series per size, and raises for a count \<open>0\<close> in its list;
    generated sums lie in \<open>[n, 100 n]\<close>.

  \<^bold>\<open>This theory\<close> holds the property that spans the components: the assertion of
  \<open>main\<close> holds under every thread schedule for every object the constructor builds
  (Generator, Threads, Timing and Driver together).

  \<^bold>\<open>Fuel and fairness.\<close> The interleaving model needs no fuel: \<open>run_step\<close> is
  well-founded, and the executable schedule \<open>run_sched\<close> is given fuel
  \<open>run_measure\<close> of the start state, enough since every step spends at least one unit.
  The generator's loop is genuinely unbounded; its termination is stated exactly
  (\<open>randint\<close> returns iff some later draw is accepted), and the drivers' results assume
  a fair stream, which the witnesses instantiate with the constant stream of zero words.

  \<^bold>\<open>Not modelled.\<close> The plotting calls (lines 64--70), \<open>print\<close> and the parsing of
  \<open>input()\<close>: output only, nothing the program computes depends on them. The Mersenne
  Twister's recurrence and seeding are not modelled: its outputs are an arbitrary
  stream, so every result holds for every seed. Real time is not modelled beyond the
  values \<open>time.time()\<close> returns.

  \<^bold>\<open>Findings.\<close> A negative thread count is accepted: no thread starts, the
  threaded sum is 0, and \<open>main\<close> fails its assertion, where the specification asks
  for a configuration error (zero threads raises \<open>ZeroDivisionError\<close> instead of
  that error). The elapsed time uses the wall clock, which may be set back, so its
  non-negativity holds only for a monotone clock. The result
  needs only associativity, not the commutativity the specification invokes. Drawing
  a vector terminates only almost surely: \<open>randint\<close> redraws without bound.
\<close>

text \<open>
  C11. The assertion of \<open>main\<close> (line 85) holds under every schedule: on a
  \<open>VectorSum\<close> that \<open>__init__\<close> built with at least one thread, whatever
  interleaving of the workers the interpreter chooses, the value the parallel path
  returns equals the total \<open>measure_sequential_time\<close> reports, whatever the clock.
\<close>

theorem main_assertion_every_schedule:
  assumes "1 \<le> k" "vector_sum_init n k g = Some (Inr vs, g')"
    "run_reachable vs s" "pc s = Returned r"
  shows "snd (fst (measure_sequential_time vs clk)) = r"
proof -
  obtain v where vs: "vs = vector_sum_new n k v" and rv: "is_random_vector n v"
    using vector_sum_init_Some [OF assms(2)] by blast
  have "r = sum_list (map (chunk_sum (vector vs) (vsize vs) (num_threads vs) \<circ> int)
                       [0..<nat (num_threads vs)])"
    using assms(3,4) by (intro run_inv_returned run_reachable_inv)
  also have "\<dots> = sum_list (vector vs)"
    using assms(1) random_vector_inv [OF rv, of k] vs
    by (intro chunk_sums_total) (simp_all add: vector_sum_inv_def vector_sum_new_def)
  finally show ?thesis
    by (simp add: measure_sequential_time_eq sum_vector_def)
qed

theorem main_assertion_every_schedule_witness:
  "1 \<le> (2::int) \<and> vector_sum_init 3 2 (sconst 0) = Some (Inr (vector_sum_new 3 2 [1, 1, 1]), sconst 0) \<and>
   run_reachable (vector_sum_new 3 2 [1, 1, 1::int]) (run_sched 20 (vector_sum_new 3 2 [1, 1, 1::int]) (run_init (vector_sum_new 3 2 [1, 1, 1::int]))) \<and>
   pc (run_sched 20 (vector_sum_new 3 2 [1, 1, 1::int]) (run_init (vector_sum_new 3 2 [1, 1, 1::int]))) = Returned 3 \<and>
   snd (fst (measure_sequential_time (vector_sum_new 3 2 [1, 1, 1::int]) (sconst 0))) = 3"
proof -
  have init: "vector_sum_init 3 2 (sconst 0) = Some (Inr (vector_sum_new 3 2 [1, 1, 1]), sconst 0)"
    by (simp add: vector_sum_init_sconst0 numeral_3_eq_3)
  have reach: "run_reachable (vector_sum_new 3 2 [1, 1, 1::int]) (run_sched 20 (vector_sum_new 3 2 [1, 1, 1::int]) (run_init (vector_sum_new 3 2 [1, 1, 1::int])))"
    by (intro run_reachable_run_sched run_reachable.init) (simp add: vector_sum_new_def)
  have ret: "pc (run_sched 20 (vector_sum_new 3 2 [1, 1, 1::int]) (run_init (vector_sum_new 3 2 [1, 1, 1::int]))) = Returned 3"
    by code_simp
  show ?thesis using main_assertion_every_schedule [OF _ init reach ret] init reach ret by simp
qed

end
